theory Spec2Isabelle
  imports Main "HOL-Library.Word"
begin

unbundle bit_operations_syntax

section \<open>PlatyLogger: the data the logger works on\<close>

text \<open>
  The development follows \<^verbatim>\<open>src/PlatyLogger.h\<close>. The class \<^verbatim>\<open>Logger\<close> has only
  static members, so the program state is one record: the static variables of the class,
  the console, and the part of the file system the logger touches.

  \<^item> \<^verbatim>\<open>unsigned int\<close> is a 32-bit word, \<^verbatim>\<open>unsigned long long\<close> a 64-bit word.
  \<^item> \<^verbatim>\<open>std::string\<close> and \<^verbatim>\<open>const char*\<close> are \<open>string\<close>.
  \<^item> A call of a \<^verbatim>\<open>std::filesystem\<close> function that throws is a result \<open>Inl\<close>.
\<close>

type_synonym uint = "32 word"
type_synonym ull = "64 word"

text \<open>The fields of \<^verbatim>\<open>struct tm\<close> that the logger reads.\<close>

record tm =
  tm_sec :: int
  tm_min :: int
  tm_hour :: int
  tm_mday :: int
  tm_mon :: int
  tm_year :: int

text \<open>
  What one call of \<^verbatim>\<open>Log\<close> reads from the clock. \<^verbatim>\<open>Log\<close> calls \<^verbatim>\<open>GetTime()\<close> three times
  for the header (once per field), \<^verbatim>\<open>LogToFile\<close> once more for the creation banner; the
  four readings are kept apart. \<open>r_now\<close> is the time the file system stamps on a file
  written during the call.
\<close>

record readings =
  r_hour :: tm
  r_min :: tm
  r_sec :: tm
  r_created :: tm
  r_now :: ull

text \<open>
  The session file \<^verbatim>\<open>./logs/latest_log.txt\<close>: its text, its last write time, and whether
  the operating system lets this process open it for writing (a read-only or locked file
  is not \<open>writable\<close>).
\<close>

record session_file =
  content :: string
  mtime :: ull
  writable :: bool

text \<open>
  An entry of the archive directory \<^verbatim>\<open>./logs/past_logs/\<close>: a regular file with its text,
  creation time and last write time, or a sub-directory (the flag says whether it is
  non-empty) with its creation time.
\<close>

datatype node =
  Regular string ull ull
| Directory bool ull

fun is_regular_file :: "node \<Rightarrow> bool" where
  "is_regular_file (Regular c ct mt) = True"
| "is_regular_file (Directory ne ct) = False"

fun creation_time :: "node \<Rightarrow> ull" where
  "creation_time (Regular c ct mt) = ct"
| "creation_time (Directory ne ct) = ct"

text \<open>
  The directory \<^verbatim>\<open>./logs\<close>. The archive is the listing of \<^verbatim>\<open>./logs/past_logs/\<close> in the
  order \<^verbatim>\<open>std::filesystem::directory_iterator\<close> yields it, each entry under its file name;
  \<open>None\<close> is a missing file or directory.
\<close>

record logs_dir =
  latest_log :: "session_file option"
  past_logs :: "(string \<times> node) list option"

text \<open>
  The state: the build flag \<^verbatim>\<open>PLATY_WINDOWS\<close>, the file names the platform accepts,
  the console (its text attribute and what has been printed on it), the static variables
  of \<^verbatim>\<open>Logger\<close>, and \<^verbatim>\<open>./logs\<close>. \<open>usable_name\<close> holds of the names under which the
  platform creates a file in the archive directory: a name with a character the file
  system reserves, or too long for it, is not one. The stream \<^verbatim>\<open>fs\<close> is closed whenever
  a member function returns, so it is not part of the state; the model is sequential, so
  neither is the mutex.
\<close>

record logger =
  platy_windows :: bool
  usable_name :: "string \<Rightarrow> bool"
  color :: uint
  stdout :: string
  shouldCreateNewFile :: bool
  pastLogsToKeep :: uint
  logLevelsToDisplay :: uint
  logLevelsToSave :: uint
  logs :: "logs_dir option"

datatype error = FilesystemError

subsection \<open>Constants\<close>

definition LOGLEVEL_NONE :: uint where "LOGLEVEL_NONE = 0"
definition LOGLEVEL_TRACE :: uint where "LOGLEVEL_TRACE = 1"
definition LOGLEVEL_INFO :: uint where "LOGLEVEL_INFO = push_bit 1 1"
definition LOGLEVEL_DEBUG :: uint where "LOGLEVEL_DEBUG = push_bit 2 1"
definition LOGLEVEL_WARNING :: uint where "LOGLEVEL_WARNING = push_bit 3 1"
definition LOGLEVEL_ERROR :: uint where "LOGLEVEL_ERROR = push_bit 4 1"
definition LOGLEVEL_FATAL :: uint where "LOGLEVEL_FATAL = push_bit 5 1"
definition LOGLEVEL_ALL :: uint where "LOGLEVEL_ALL = 63"

definition latestLogFilepath :: string where
  "latestLogFilepath = ''./logs/latest_log.txt''"

definition logsFilepath :: string where
  "logsFilepath = ''./logs''"

definition pastLogsFilepath :: string where
  "pastLogsFilepath = ''./logs/past_logs/''"

text \<open>
  The colours of the Windows build (\<^verbatim>\<open>FOREGROUND_BLUE = 1\<close>, \<^verbatim>\<open>FOREGROUND_GREEN = 2\<close>,
  \<^verbatim>\<open>FOREGROUND_RED = 4\<close>); the other build sets them to 0.
\<close>

definition traceColor :: "bool \<Rightarrow> uint" where
  "traceColor win = (if win then 2 OR 4 OR 1 else 0)"

definition infoColor :: "bool \<Rightarrow> uint" where
  "infoColor win = (if win then 1 else 0)"

definition debugColor :: "bool \<Rightarrow> uint" where
  "debugColor win = (if win then 2 else 0)"

definition warnColor :: "bool \<Rightarrow> uint" where
  "warnColor win = (if win then 4 OR 2 else 0)"

definition errorColor :: "bool \<Rightarrow> uint" where
  "errorColor win = (if win then 4 else 0)"

definition fatalColor :: "bool \<Rightarrow> uint" where
  "fatalColor win = (if win then 4 else 0)"

text \<open>
  The static initialisers at the end of the header: the state of a process that has not
  logged yet, on a given build and platform, with a given console and file system.
\<close>

definition initial ::
  "bool \<Rightarrow> (string \<Rightarrow> bool) \<Rightarrow> uint \<Rightarrow> string \<Rightarrow> logs_dir option \<Rightarrow> logger" where
  "initial win names col out root =
     \<lparr>platy_windows = win, usable_name = names, color = col, stdout = out,
      shouldCreateNewFile = True, pastLogsToKeep = 5,
      logLevelsToDisplay = LOGLEVEL_ALL, logLevelsToSave = LOGLEVEL_ALL,
      logs = root\<rparr>"

section \<open>The configuration calls\<close>

definition SetLevelsToDisplay :: "uint \<Rightarrow> logger \<Rightarrow> logger" where
  "SetLevelsToDisplay logLevels s = s\<lparr>logLevelsToDisplay := logLevels\<rparr>"

definition SetLevelsToSave :: "uint \<Rightarrow> logger \<Rightarrow> logger" where
  "SetLevelsToSave logLevels s = s\<lparr>logLevelsToSave := logLevels\<rparr>"

definition SetNumberOfFilesToSave :: "uint \<Rightarrow> logger \<Rightarrow> logger" where
  "SetNumberOfFilesToSave numberToSave s = s\<lparr>pastLogsToKeep := numberToSave\<rparr>"

section \<open>The C library and the console\<close>

text \<open>\<^verbatim>\<open>%i\<close> of \<^verbatim>\<open>sprintf\<close>: a decimal numeral, with a minus sign below zero.\<close>

fun digits :: "nat \<Rightarrow> string" where
  "digits n =
     (if n < 10 then [char_of (48 + n)]
      else digits (n div 10) @ [char_of (48 + n mod 10)])"

definition show_int :: "int \<Rightarrow> string" where
  "show_int i = (if i < 0 then CHR ''-'' # digits (nat (- i)) else digits (nat i))"

text \<open>\<^verbatim>\<open>isspace\<close> in the C locale: space, and the control characters 9 to 13.\<close>

definition isspace :: "char \<Rightarrow> bool" where
  "isspace c = (c = CHR '' '' \<or> ((9::nat) \<le> of_char c \<and> of_char c \<le> (13::nat)))"

definition newline :: char where
  "newline = CHR 0x0A"

text \<open>\<^verbatim>\<open>printf\<close> appends to what the console shows.\<close>

definition printf :: "string \<Rightarrow> logger \<Rightarrow> logger" where
  "printf str s = s\<lparr>stdout := stdout s @ str\<rparr>"

text \<open>The macro \<^verbatim>\<open>SET_COLOR\<close>: empty unless \<^verbatim>\<open>PLATY_WINDOWS\<close> is defined.\<close>

definition SET_COLOR :: "uint \<Rightarrow> logger \<Rightarrow> logger" where
  "SET_COLOR col s = (if platy_windows s then s\<lparr>color := col\<rparr> else s)"

section \<open>The file system\<close>

text \<open>
  The fragment of \<^verbatim>\<open>std::filesystem\<close> and \<^verbatim>\<open>std::fstream\<close> the logger uses, on the
  paths it uses them with. What is modelled to fail: a stream does not open on a session
  file that is not \<open>writable\<close> (nor, for reading, on a missing one); iterating a missing
  directory throws; removing a non-empty directory throws; copying throws when the source
  or the destination directory is missing, or when the destination is new and its name
  has a directory part or is not a name the platform accepts. Every other call succeeds. An archive entry
  is addressed by the path \<^verbatim>\<open>./logs/past_logs/<name>\<close>, its name taken as it is.
\<close>

definition find_entry :: "(string \<times> node) list \<Rightarrow> string \<Rightarrow> (string \<times> node) option" where
  "find_entry es p = find (\<lambda>e. pastLogsFilepath @ fst e = p) es"

text \<open>\<^verbatim>\<open>std::filesystem::exists\<close>. The empty path names no file.\<close>

definition fs_exists :: "logs_dir option \<Rightarrow> string \<Rightarrow> bool" where
  "fs_exists root p =
     (case root of
        None \<Rightarrow> False
      | Some d \<Rightarrow>
          if p = logsFilepath then True
          else if p = latestLogFilepath then latest_log d \<noteq> None
          else (case past_logs d of
                  None \<Rightarrow> False
                | Some es \<Rightarrow> p = pastLogsFilepath \<or> find_entry es p \<noteq> None))"

text \<open>
  \<^verbatim>\<open>std::filesystem::create_directory\<close> on \<^verbatim>\<open>./logs\<close> and on \<^verbatim>\<open>./logs/past_logs/\<close>: a new
  empty directory, or no change when it is there already.
\<close>

definition create_directory :: "logs_dir option \<Rightarrow> string \<Rightarrow> logs_dir option" where
  "create_directory root p =
     (if p = logsFilepath then
        (case root of
           None \<Rightarrow> Some \<lparr>latest_log = None, past_logs = None\<rparr>
         | Some d \<Rightarrow> Some d)
      else if p = pastLogsFilepath then
        (case root of
           None \<Rightarrow> None
         | Some d \<Rightarrow>
             (case past_logs d of
                None \<Rightarrow> Some (d\<lparr>past_logs := Some []\<rparr>)
              | Some es \<Rightarrow> Some d))
      else root)"

text \<open>
  \<^verbatim>\<open>fs.open(latestLogFilepath, mode)\<close>: whether the stream is open afterwards, and the
  file system. \<^verbatim>\<open>std::ios::out\<close> creates or truncates the file, \<^verbatim>\<open>std::ios::app\<close> creates
  it or keeps its text, the default mode (\<^verbatim>\<open>in | out\<close>) needs the file to be there.
\<close>

datatype openmode = ios_out | ios_app | ios_in_out

definition fstream_open ::
  "ull \<Rightarrow> openmode \<Rightarrow> logs_dir option \<Rightarrow> bool \<times> logs_dir option" where
  "fstream_open now mode root =
     (case root of
        None \<Rightarrow> (False, None)
      | Some d \<Rightarrow>
          (case latest_log d of
             None \<Rightarrow>
               if mode = ios_in_out then (False, root)
               else (True, Some (d\<lparr>latest_log :=
                       Some \<lparr>content = [], mtime = now, writable = True\<rparr>\<rparr>))
           | Some f \<Rightarrow>
               if \<not> writable f then (False, root)
               else if mode = ios_out then
                 (True, Some (d\<lparr>latest_log := Some (f\<lparr>content := [], mtime := now\<rparr>)\<rparr>))
               else (True, root)))"

text \<open>\<^verbatim>\<open>fs << str\<close> on the open stream: the text goes to the end of the session file.\<close>

definition fstream_put :: "ull \<Rightarrow> string \<Rightarrow> logs_dir option \<Rightarrow> logs_dir option" where
  "fstream_put now str root =
     (case root of
        None \<Rightarrow> None
      | Some d \<Rightarrow>
          (case latest_log d of
             None \<Rightarrow> root
           | Some f \<Rightarrow>
               Some (d\<lparr>latest_log := Some (f\<lparr>content := content f @ str, mtime := now\<rparr>)\<rparr>)))"

text \<open>\<^verbatim>\<open>std::getline\<close> on the stream just opened: the text before the first newline.\<close>

definition getline :: "logs_dir option \<Rightarrow> string" where
  "getline root =
     (case root of
        None \<Rightarrow> []
      | Some d \<Rightarrow>
          (case latest_log d of
             None \<Rightarrow> []
           | Some f \<Rightarrow> takeWhile (\<lambda>c. c \<noteq> newline) (content f)))"

text \<open>
  \<^verbatim>\<open>std::filesystem::remove\<close> on a path of the archive: the entry goes, unless it is a
  non-empty directory (an exception); a path that names nothing is not an error.
\<close>

definition fs_remove :: "logs_dir option \<Rightarrow> string \<Rightarrow> error + logs_dir option" where
  "fs_remove root p =
     (case root of
        None \<Rightarrow> Inr None
      | Some d \<Rightarrow>
          (case past_logs d of
             None \<Rightarrow> Inr root
           | Some es \<Rightarrow>
               (case find_entry es p of
                  None \<Rightarrow> Inr root
                | Some e \<Rightarrow>
                    (case snd e of
                       Directory True ct \<Rightarrow> Inl FilesystemError
                     | _ \<Rightarrow> Inr (Some (d\<lparr>past_logs := Some (remove1 e es)\<rparr>))))))"

text \<open>
  \<^verbatim>\<open>std::filesystem::copy(latestLogFilepath, to, copy_options::update_existing)\<close> for a
  destination \<open>to\<close> in the archive directory. The file system takes the path as a C
  string, up to its first NUL character (\<open>c_str\<close>). A destination that is not there is
  created (the listing shows it last), unless its name has a directory part (a slash,
  on Windows also a backslash: the directory it names is not there) or is not a name the
  platform accepts: then the call throws. A regular file that is there is replaced only
  if it is older than the session file; into a directory of that name the file is copied
  under its own name. The copy keeps the last write time of the source on Windows and is
  stamped with the current time elsewhere.
\<close>

definition c_str :: "string \<Rightarrow> string" where
  "c_str str = takeWhile (\<lambda>c. c \<noteq> CHR 0x00) str"

definition directory_part :: "bool \<Rightarrow> string \<Rightarrow> bool" where
  "directory_part win name = (CHR ''/'' \<in> set name \<or> (win \<and> CHR 0x5C \<in> set name))"

fun copy_into ::
  "bool \<Rightarrow> ull \<Rightarrow> session_file \<Rightarrow> string \<Rightarrow> (string \<times> node) list \<Rightarrow> (string \<times> node) list" where
  "copy_into win now f to [] =
     [(drop (length pastLogsFilepath) to,
       Regular (content f) now (if win then mtime f else now))]"
| "copy_into win now f to (e # es) =
     (if pastLogsFilepath @ fst e = to then
        (fst e,
         (case snd e of
            Regular c ct mt \<Rightarrow>
              if mt < mtime f then Regular (content f) ct (if win then mtime f else now)
              else Regular c ct mt
          | Directory ne ct \<Rightarrow> Directory True ct)) # es
      else e # copy_into win now f to es)"

definition fs_copy ::
  "bool \<Rightarrow> (string \<Rightarrow> bool) \<Rightarrow> ull \<Rightarrow> logs_dir option \<Rightarrow> string \<Rightarrow> error + logs_dir option" where
  "fs_copy win names now root to =
     (case root of
        None \<Rightarrow> Inl FilesystemError
      | Some d \<Rightarrow>
          (case latest_log d of
             None \<Rightarrow> Inl FilesystemError
           | Some f \<Rightarrow>
               (case past_logs d of
                  None \<Rightarrow> Inl FilesystemError
                | Some es \<Rightarrow>
                    if find_entry es (c_str to) = None \<and>
                       (directory_part win (drop (length pastLogsFilepath) (c_str to)) \<or>
                        \<not> names (drop (length pastLogsFilepath) (c_str to)))
                    then Inl FilesystemError
                    else Inr (Some (d\<lparr>past_logs :=
                                 Some (copy_into win now f (c_str to) es)\<rparr>)))))"

section \<open>The helper functions of the logger\<close>

definition CreateLoggingDirectories :: "logger \<Rightarrow> logger" where
  "CreateLoggingDirectories s =
     s\<lparr>logs := create_directory (create_directory (logs s) logsFilepath) pastLogsFilepath\<rparr>"

text \<open>
  \<^verbatim>\<open>GetFileCreationTime\<close>, called on the empty path and on paths of the archive listing.
  The Windows build reads the creation time of the entry; the other build prints its
  notice and returns 0.
\<close>

definition no_unix_support :: string where
  "no_unix_support = ''fuck you no unix support''"

definition GetFileCreationTime :: "string \<Rightarrow> logger \<Rightarrow> ull \<times> logger" where
  "GetFileCreationTime filePath s =
     (if \<not> fs_exists (logs s) filePath then (0, s)
      else if platy_windows s then
        (case logs s of
           None \<Rightarrow> (0, s)
         | Some d \<Rightarrow>
             (case past_logs d of
                None \<Rightarrow> (0, s)
              | Some es \<Rightarrow>
                  (case find_entry es filePath of
                     None \<Rightarrow> (0, s)
                   | Some e \<Rightarrow> (creation_time (snd e), s))))
      else (0, printf no_unix_support s))"

text \<open>
  The loop of \<^verbatim>\<open>GetOldestLog\<close> over the listing. The condition evaluates
  \<^verbatim>\<open>GetFileCreationTime\<close> on both operands of \<^verbatim>\<open>>\<close> and, when that comparison is false,
  once more on \<^verbatim>\<open>oldestFile\<close>.
\<close>

fun GetOldestLog_loop :: "(string \<times> node) list \<Rightarrow> string \<Rightarrow> logger \<Rightarrow> string \<times> logger" where
  "GetOldestLog_loop [] oldestFile s = (oldestFile, s)"
| "GetOldestLog_loop (e # es) oldestFile s =
     (let file = pastLogsFilepath @ fst e;
          r1 = GetFileCreationTime oldestFile s;
          r2 = GetFileCreationTime file (snd r1)
      in if fst r1 > fst r2 then GetOldestLog_loop es file (snd r2)
         else
           (let r3 = GetFileCreationTime oldestFile (snd r2)
            in if fst r3 = 0 then GetOldestLog_loop es file (snd r3)
               else GetOldestLog_loop es oldestFile (snd r3)))"

definition GetOldestLog :: "logger \<Rightarrow> error + string \<times> logger" where
  "GetOldestLog s =
     (case logs s of
        None \<Rightarrow> Inl FilesystemError
      | Some d \<Rightarrow>
          (case past_logs d of
             None \<Rightarrow> Inl FilesystemError
           | Some es \<Rightarrow> Inr (GetOldestLog_loop es [] s)))"

text \<open>\<^verbatim>\<open>CountFiles(pastLogsFilepath.c_str())\<close>, the only call of \<^verbatim>\<open>CountFiles\<close>.\<close>

fun CountFiles_loop :: "(string \<times> node) list \<Rightarrow> uint \<Rightarrow> uint" where
  "CountFiles_loop [] fileCount = fileCount"
| "CountFiles_loop (e # es) fileCount =
     CountFiles_loop es (if is_regular_file (snd e) then fileCount + 1 else fileCount)"

definition CountFiles :: "logger \<Rightarrow> error + uint" where
  "CountFiles s =
     (case logs s of
        None \<Rightarrow> Inl FilesystemError
      | Some d \<Rightarrow>
          (case past_logs d of
             None \<Rightarrow> Inl FilesystemError
           | Some es \<Rightarrow> Inr (CountFiles_loop es 0)))"

section \<open>The archive transition\<close>

text \<open>
  The body of the \<^verbatim>\<open>if\<close> of \<^verbatim>\<open>SaveLatestLog\<close> that makes room in the archive: the notice
  on the console, then the removal of what \<^verbatim>\<open>GetOldestLog\<close> returned.
\<close>

definition removing_notice :: "string \<Rightarrow> string" where
  "removing_notice fileToRemove =
     ''Maximum number of past logs reached, removing: '' @ fileToRemove @ [newline]"

definition SaveLatestLog_remove :: "logger \<Rightarrow> error + logger" where
  "SaveLatestLog_remove s =
     (case GetOldestLog s of
        Inl e \<Rightarrow> Inl e
      | Inr r \<Rightarrow>
          (let s1 = printf (removing_notice (fst r)) (SET_COLOR (errorColor (platy_windows s)) (snd r))
           in case fs_remove (logs s1) (fst r) of
                Inl e \<Rightarrow> Inl e
              | Inr root \<Rightarrow> Inr (s1\<lparr>logs := root\<rparr>)))"

text \<open>
  The new name of the file, from the first line of the old session file: \<^verbatim>\<open>erase(0, 10)\<close>,
  the erase--remove of \<^verbatim>\<open>isspace\<close>, \<^verbatim>\<open>std::replace\<close> of \<^verbatim>\<open>':'\<close> by \<^verbatim>\<open>'-'\<close>, and the
  concatenation with \<^verbatim>\<open>"log_"\<close> and \<^verbatim>\<open>".txt"\<close>.
\<close>

definition SaveLatestLog_name :: "string \<Rightarrow> string" where
  "SaveLatestLog_name newFilename =
     ''log_'' @
     map (\<lambda>c. if c = CHR '':'' then CHR ''-'' else c)
       (filter (\<lambda>c. \<not> isspace c) (drop 10 newFilename)) @
     ''.txt''"

text \<open>
  The first line as \<^verbatim>\<open>SaveLatestLog\<close> reads it: empty when the stream did not open.
\<close>

definition SaveLatestLog_line :: "ull \<Rightarrow> logs_dir option \<Rightarrow> string" where
  "SaveLatestLog_line now root =
     (if fst (fstream_open now ios_in_out root) then getline root else [])"

definition newFileLocation :: "ull \<Rightarrow> logs_dir option \<Rightarrow> string" where
  "newFileLocation now root =
     pastLogsFilepath @ SaveLatestLog_name (SaveLatestLog_line now root)"

definition SaveLatestLog :: "ull \<Rightarrow> logger \<Rightarrow> error + logger" where
  "SaveLatestLog now s =
     (let s1 = (if \<not> fs_exists (logs s) latestLogFilepath
                then CreateLoggingDirectories s else s)
      in case CountFiles s1 of
           Inl e \<Rightarrow> Inl e
         | Inr n \<Rightarrow>
             (case (if n \<ge> pastLogsToKeep s1 then SaveLatestLog_remove s1 else Inr s1) of
                Inl e \<Rightarrow> Inl e
              | Inr s2 \<Rightarrow>
                  (case fs_copy (platy_windows s2) (usable_name s2) now (logs s2)
                          (newFileLocation now (logs s2)) of
                     Inl e \<Rightarrow> Inl e
                   | Inr root \<Rightarrow> Inr (s2\<lparr>logs := root\<rparr>))))"

section \<open>Writing a record\<close>

text \<open>The banner: \<^verbatim>\<open>"Created - %i. %i. %i. %i:%i:%i\n\n"\<close>.\<close>

definition creationDate :: "tm \<Rightarrow> string" where
  "creationDate t =
     ''Created - '' @ show_int (tm_year t + 1900) @ ''. '' @ show_int (tm_mon t + 1) @
     ''. '' @ show_int (tm_mday t) @ ''. '' @ show_int (tm_hour t) @ '':'' @
     show_int (tm_min t) @ '':'' @ show_int (tm_sec t) @ [newline, newline]"

text \<open>The line of a record: \<^verbatim>\<open>header << " - " << message << "\n"\<close>.\<close>

definition record_line :: "string \<Rightarrow> string \<Rightarrow> string" where
  "record_line header message = header @ '' - '' @ message @ [newline]"

text \<open>
  The end of \<^verbatim>\<open>LogToFile\<close> (``Writes the log''): the line on the open stream, or no more
  saving at all.
\<close>

definition LogToFile_write :: "ull \<Rightarrow> bool \<Rightarrow> string \<Rightarrow> string \<Rightarrow> logger \<Rightarrow> logger" where
  "LogToFile_write now is_open header message s =
     (if is_open then s\<lparr>logs := fstream_put now (record_line header message) (logs s)\<rparr>
      else SetLevelsToSave LOGLEVEL_NONE s)"

definition LogToFile :: "readings \<Rightarrow> string \<Rightarrow> string \<Rightarrow> logger \<Rightarrow> error + logger" where
  "LogToFile clk header message s =
     (let s1 = (if \<not> fs_exists (logs s) logsFilepath \<or> \<not> fs_exists (logs s) pastLogsFilepath
                then CreateLoggingDirectories s else s)
      in if shouldCreateNewFile s1 then
           (case (if fs_exists (logs s1) latestLogFilepath
                  then SaveLatestLog (r_now clk) s1 else Inr s1) of
              Inl e \<Rightarrow> Inl e
            | Inr s2 \<Rightarrow>
                (let r = fstream_open (r_now clk) ios_out (logs s2);
                     s3 = s2\<lparr>logs := snd r, shouldCreateNewFile := False\<rparr>;
                     s4 = (if fst r
                           then s3\<lparr>logs := fstream_put (r_now clk)
                                            (creationDate (r_created clk)) (logs s3)\<rparr>
                           else s3)
                 in Inr (LogToFile_write (r_now clk) (fst r) header message s4)))
         else
           (let r = fstream_open (r_now clk) ios_app (logs s1)
            in Inr (LogToFile_write (r_now clk) (fst r) header message (s1\<lparr>logs := snd r\<rparr>))))"

section \<open>The logging calls\<close>

text \<open>
  The header: \<^verbatim>\<open>"[%i:%i:%i] <%s>"\<close>. The message is the text \<^verbatim>\<open>sprintf\<close> has formatted into
  \<^verbatim>\<open>messageBuffer\<close>; formatting is not part of this development.
\<close>

definition header_of :: "readings \<Rightarrow> string \<Rightarrow> string" where
  "header_of clk logLevelStr =
     ''['' @ show_int (tm_hour (r_hour clk)) @ '':'' @ show_int (tm_min (r_min clk)) @
     '':'' @ show_int (tm_sec (r_sec clk)) @ ''] <'' @ logLevelStr @ ''>''"

definition Log :: "readings \<Rightarrow> uint \<Rightarrow> string \<Rightarrow> uint \<Rightarrow> string \<Rightarrow> logger \<Rightarrow> error + logger" where
  "Log clk logLevel logLevelStr col messageBuffer s =
     (let s0 = SET_COLOR col s;
          header = header_of clk logLevelStr;
          s1 = (if logLevelsToDisplay s0 AND logLevel \<noteq> 0
                then printf (record_line header messageBuffer) s0 else s0)
      in if logLevelsToSave s1 AND logLevel \<noteq> 0
         then LogToFile clk header messageBuffer s1 else Inr s1)"

definition Trace :: "readings \<Rightarrow> string \<Rightarrow> logger \<Rightarrow> error + logger" where
  "Trace clk msg s = Log clk LOGLEVEL_TRACE ''Trace'' (traceColor (platy_windows s)) msg s"

definition Info :: "readings \<Rightarrow> string \<Rightarrow> logger \<Rightarrow> error + logger" where
  "Info clk msg s = Log clk LOGLEVEL_INFO ''Info'' (infoColor (platy_windows s)) msg s"

definition Debug :: "readings \<Rightarrow> string \<Rightarrow> logger \<Rightarrow> error + logger" where
  "Debug clk msg s = Log clk LOGLEVEL_DEBUG ''Debug'' (debugColor (platy_windows s)) msg s"

definition Warning :: "readings \<Rightarrow> string \<Rightarrow> logger \<Rightarrow> error + logger" where
  "Warning clk msg s = Log clk LOGLEVEL_WARNING ''Warning'' (warnColor (platy_windows s)) msg s"

definition Error :: "readings \<Rightarrow> string \<Rightarrow> logger \<Rightarrow> error + logger" where
  "Error clk msg s = Log clk LOGLEVEL_ERROR ''Error'' (errorColor (platy_windows s)) msg s"

definition Fatal :: "readings \<Rightarrow> string \<Rightarrow> logger \<Rightarrow> error + logger" where
  "Fatal clk msg s = Log clk LOGLEVEL_FATAL ''Fatal'' (fatalColor (platy_windows s)) msg s"

section \<open>Observations on a state\<close>

text \<open>
  Auxiliary notions for stating properties; none of them is part of the program.
  \<open>session\<close> is the session file if there is one, \<open>archive\<close> the listing of the archive
  directory (empty when the directory is missing) and \<open>archive_names\<close> its file names, \<open>archive_count\<close>
  the number of regular files in it,
  \<open>session_text\<close> the text of the session file.
\<close>

definition session :: "logger \<Rightarrow> session_file option" where
  "session s = (case logs s of None \<Rightarrow> None | Some d \<Rightarrow> latest_log d)"

definition archive :: "logger \<Rightarrow> (string \<times> node) list" where
  "archive s =
     (case logs s of
        None \<Rightarrow> []
      | Some d \<Rightarrow> (case past_logs d of None \<Rightarrow> [] | Some es \<Rightarrow> es))"

definition archive_names :: "logger \<Rightarrow> string list" where
  "archive_names s = map fst (archive s)"


definition session_text :: "logger \<Rightarrow> string" where
  "session_text s = (case session s of None \<Rightarrow> [] | Some f \<Rightarrow> content f)"

text \<open>The state once \<^verbatim>\<open>LogToFile\<close> has made sure that both directories exist.\<close>

definition prepared :: "logger \<Rightarrow> logger" where
  "prepared s = s\<lparr>logs := Some \<lparr>latest_log = session s, past_logs = Some (archive s)\<rparr>\<rparr>"

text \<open>
  The value \<^verbatim>\<open>GetFileCreationTime\<close> returns for a path, and the path the loop of
  \<^verbatim>\<open>GetOldestLog\<close> ends with, both without the console.
\<close>

definition ctime_at :: "bool \<Rightarrow> (string \<times> node) list \<Rightarrow> string \<Rightarrow> ull" where
  "ctime_at win es p =
     (case find_entry es p of
        None \<Rightarrow> 0
      | Some e \<Rightarrow> if win then creation_time (snd e) else 0)"

fun oldest :: "bool \<Rightarrow> (string \<times> node) list \<Rightarrow> (string \<times> node) list \<Rightarrow> string \<Rightarrow> string" where
  "oldest win all [] c = c"
| "oldest win all (e # es) c =
     (if ctime_at win all c > ctime_at win all (pastLogsFilepath @ fst e) \<or> ctime_at win all c = 0
      then oldest win all es (pastLogsFilepath @ fst e)
      else oldest win all es c)"

text \<open>
  The listing once \<^verbatim>\<open>SaveLatestLog\<close> has made room: without the entry \<^verbatim>\<open>GetOldestLog\<close>
  names, when \<^verbatim>\<open>CountFiles\<close> has reached the limit.
\<close>

definition evict :: "bool \<Rightarrow> (string \<times> node) list \<Rightarrow> (string \<times> node) list" where
  "evict win es =
     (case find_entry es (oldest win es es []) of
        None \<Rightarrow> es
      | Some e \<Rightarrow> remove1 e es)"

definition after_room :: "logger \<Rightarrow> (string \<times> node) list" where
  "after_room s =
     (if CountFiles_loop (archive s) 0 \<ge> pastLogsToKeep s
      then evict (platy_windows s) (archive s) else archive s)"

text \<open>
  The first line \<^verbatim>\<open>SaveLatestLog\<close> reads from a session file, and the path it copies the
  file to.
\<close>

definition first_line :: "session_file \<Rightarrow> string" where
  "first_line f = (if writable f then takeWhile (\<lambda>c. c \<noteq> newline) (content f) else [])"

definition archive_location :: "session_file \<Rightarrow> string" where
  "archive_location f = pastLogsFilepath @ SaveLatestLog_name (first_line f)"

text \<open>
  What \<^verbatim>\<open>std::filesystem::remove\<close> deletes without an exception, and the states in which
  \<^verbatim>\<open>SaveLatestLog\<close> can make room: the limit is not reached, or \<^verbatim>\<open>GetOldestLog\<close> names
  nothing or something that can be removed.
\<close>

fun removable :: "node \<Rightarrow> bool" where
  "removable (Regular c ct mt) = True"
| "removable (Directory ne ct) = (\<not> ne)"

definition can_make_room :: "logger \<Rightarrow> bool" where
  "can_make_room s =
     (if CountFiles_loop (archive s) 0 \<ge> pastLogsToKeep s
      then (case find_entry (archive s)
                   (oldest (platy_windows s) (archive s) (archive s) []) of
              None \<Rightarrow> True
            | Some e \<Rightarrow> removable (snd e))
      else True)"

text \<open>
  The path the copy of a session file goes to, as the file system reads it, and the file
  name in it; when \<^verbatim>\<open>std::filesystem::copy\<close> returns on the listing that is left once
  room has been made (\<open>copy_allowed\<close>); when the archive transition of the session file
  that is there returns (\<open>can_archive\<close>).
\<close>

definition destination :: "session_file \<Rightarrow> string" where
  "destination f = c_str (archive_location f)"

definition destination_name :: "session_file \<Rightarrow> string" where
  "destination_name f = drop (length pastLogsFilepath) (destination f)"

definition copy_allowed :: "logger \<Rightarrow> session_file \<Rightarrow> bool" where
  "copy_allowed s f =
     (find_entry (after_room s) (destination f) \<noteq> None \<or>
      (\<not> directory_part (platy_windows s) (destination_name f) \<and>
       usable_name s (destination_name f)))"

definition can_archive :: "logger \<Rightarrow> bool" where
  "can_archive s =
     (case session s of
        None \<Rightarrow> True
      | Some f \<Rightarrow> can_make_room s \<and> copy_allowed s f)"

text \<open>
  The text of the regular file a path of the archive names, and the listings in which
  the copy of a session file puts its text under a path: the path is free, or names a
  regular file older than the session file.
\<close>

definition archived_text :: "logger \<Rightarrow> string \<Rightarrow> string option" where
  "archived_text s p =
     (case find_entry (archive s) p of
        None \<Rightarrow> None
      | Some e \<Rightarrow>
          (case snd e of
             Regular c ct mt \<Rightarrow> Some c
           | Directory ne ct \<Rightarrow> None))"

definition takes_copy :: "session_file \<Rightarrow> (string \<times> node) list \<Rightarrow> string \<Rightarrow> bool" where
  "takes_copy f es p =
     (case find_entry es p of
        None \<Rightarrow> True
      | Some e \<Rightarrow>
          (case snd e of
             Regular c ct mt \<Rightarrow> mt < mtime f
           | Directory ne ct \<Rightarrow> False))"

text \<open>
  What the console gets while \<^verbatim>\<open>SaveLatestLog\<close> makes room: the notices of
  \<^verbatim>\<open>GetFileCreationTime\<close> on a build without \<^verbatim>\<open>PLATY_WINDOWS\<close>, in the order of the loop of
  \<^verbatim>\<open>GetOldestLog\<close>, then the line that names the file to remove; and the text attribute
  the console is left with.
\<close>

definition unix_notice :: "logger \<Rightarrow> string \<Rightarrow> string" where
  "unix_notice s p =
     (if fs_exists (logs s) p \<and> \<not> platy_windows s then no_unix_support else [])"

fun notices :: "logger \<Rightarrow> (string \<times> node) list \<Rightarrow> string \<Rightarrow> string" where
  "notices s [] c = []"
| "notices s (e # es) c =
     unix_notice s c @ unix_notice s (pastLogsFilepath @ fst e) @
     (if ctime_at (platy_windows s) (archive s) c >
           ctime_at (platy_windows s) (archive s) (pastLogsFilepath @ fst e)
      then notices s es (pastLogsFilepath @ fst e)
      else unix_notice s c @
        (if ctime_at (platy_windows s) (archive s) c = 0
         then notices s es (pastLogsFilepath @ fst e)
         else notices s es c))"

definition room_text :: "logger \<Rightarrow> string" where
  "room_text s =
     (if pastLogsToKeep s \<le> CountFiles_loop (archive s) 0
      then notices s (archive s) [] @
           removing_notice (oldest (platy_windows s) (archive s) (archive s) [])
      else [])"

definition room_color :: "logger \<Rightarrow> uint" where
  "room_color s =
     (if pastLogsToKeep s \<le> CountFiles_loop (archive s) 0 \<and> platy_windows s
      then errorColor True else color s)"

section \<open>Levels and sequences of calls\<close>

text \<open>
  The six logging calls by their level: the bit, the position of the bit, the name and
  the colour each passes to \<^verbatim>\<open>Log\<close>. \<open>console_done\<close> is the state when \<^verbatim>\<open>Log\<close> has
  dealt with the console; \<open>session_opens\<close> says that a stream opens on the session file
  for writing. A \<open>call\<close> is one call of the public interface, \<open>run\<close> a sequence of them
  on a file system nobody else touches.
\<close>

datatype level = TRACE | INFO | DEBUG | WARNING | ERROR | FATAL

fun level_bit :: "level \<Rightarrow> uint" where
  "level_bit TRACE = LOGLEVEL_TRACE"
| "level_bit INFO = LOGLEVEL_INFO"
| "level_bit DEBUG = LOGLEVEL_DEBUG"
| "level_bit WARNING = LOGLEVEL_WARNING"
| "level_bit ERROR = LOGLEVEL_ERROR"
| "level_bit FATAL = LOGLEVEL_FATAL"

fun level_index :: "level \<Rightarrow> nat" where
  "level_index TRACE = 0"
| "level_index INFO = 1"
| "level_index DEBUG = 2"
| "level_index WARNING = 3"
| "level_index ERROR = 4"
| "level_index FATAL = 5"

fun level_name :: "level \<Rightarrow> string" where
  "level_name TRACE = ''Trace''"
| "level_name INFO = ''Info''"
| "level_name DEBUG = ''Debug''"
| "level_name WARNING = ''Warning''"
| "level_name ERROR = ''Error''"
| "level_name FATAL = ''Fatal''"

fun level_color :: "level \<Rightarrow> bool \<Rightarrow> uint" where
  "level_color TRACE = traceColor"
| "level_color INFO = infoColor"
| "level_color DEBUG = debugColor"
| "level_color WARNING = warnColor"
| "level_color ERROR = errorColor"
| "level_color FATAL = fatalColor"

fun log_at :: "level \<Rightarrow> readings \<Rightarrow> string \<Rightarrow> logger \<Rightarrow> error + logger" where
  "log_at TRACE = Trace"
| "log_at INFO = Info"
| "log_at DEBUG = Debug"
| "log_at WARNING = Warning"
| "log_at ERROR = Error"
| "log_at FATAL = Fatal"

definition session_opens :: "logger \<Rightarrow> bool" where
  "session_opens s = (case session s of None \<Rightarrow> True | Some f \<Rightarrow> writable f)"

definition console_done :: "level \<Rightarrow> readings \<Rightarrow> string \<Rightarrow> logger \<Rightarrow> logger" where
  "console_done l clk msg s =
     (SET_COLOR (level_color l (platy_windows s)) s)\<lparr>stdout := stdout s @
        (if logLevelsToDisplay s AND level_bit l \<noteq> 0
         then record_line (header_of clk (level_name l)) msg else [])\<rparr>"

datatype call =
  CallSetLevelsToDisplay uint
| CallSetLevelsToSave uint
| CallSetNumberOfFilesToSave uint
| CallLog level readings string

fun call_step :: "call \<Rightarrow> logger \<Rightarrow> error + logger" where
  "call_step (CallSetLevelsToDisplay m) s = Inr (SetLevelsToDisplay m s)"
| "call_step (CallSetLevelsToSave m) s = Inr (SetLevelsToSave m s)"
| "call_step (CallSetNumberOfFilesToSave n) s = Inr (SetNumberOfFilesToSave n s)"
| "call_step (CallLog l clk msg) s = log_at l clk msg s"

fun run :: "call list \<Rightarrow> logger \<Rightarrow> error + logger" where
  "run [] s = Inr s"
| "run (c # cs) s = (case call_step c s of Inl e \<Rightarrow> Inl e | Inr s' \<Rightarrow> run cs s')"

section \<open>Concrete states\<close>

text \<open>
  A platform (file names of at most 255 characters, without control characters and
  without the characters Windows reserves), clock readings, session files and states on
  which the claims are evaluated.
\<close>

definition plain_names :: "string \<Rightarrow> bool" where
  "plain_names name =
     (length name \<le> 255 \<and>
      list_all (\<lambda>c. (32::nat) \<le> of_char c \<and>
                 c \<notin> set [CHR ''<'', CHR ''>'', CHR '':'', CHR 0x22, CHR ''/'', CHR 0x5C,
                              CHR ''|'', CHR ''?'', CHR ''*'']) name)"



definition tm_later :: tm where
  "tm_later = \<lparr>tm_sec = 7, tm_min = 45, tm_hour = 18, tm_mday = 9, tm_mon = 1, tm_year = 124\<rparr>"

definition clock_later :: readings where
  "clock_later = \<lparr>r_hour = tm_later, r_min = tm_later, r_sec = tm_later, r_created = tm_later,
     r_now = 200\<rparr>"

definition banner_2024 :: string where
  "banner_2024 = ''Created - 2024. 1. 5. 10:30:0''"

definition old_text :: string where
  "old_text = banner_2024 @ [newline, newline] @ ''[10:30:0] <Info> - hi'' @ [newline]"

definition old_session :: session_file where
  "old_session = \<lparr>content = old_text, mtime = 50, writable = True\<rparr>"

definition locked_session :: session_file where
  "locked_session = old_session\<lparr>writable := False\<rparr>"

definition active_locked :: logger where
  "active_locked =
     (initial True plain_names 0 [] (Some \<lparr>latest_log = Some locked_session, past_logs = Some []\<rparr>))
       \<lparr>shouldCreateNewFile := False\<rparr>"

definition fresh_old :: logger where
  "fresh_old = initial True plain_names 0 [] (Some \<lparr>latest_log = Some old_session, past_logs = Some []\<rparr>)"

definition active_old :: logger where
  "active_old = fresh_old\<lparr>shouldCreateNewFile := False\<rparr>"

definition mixed_times :: logger where
  "mixed_times =
     initial True plain_names 0 []
       (Some \<lparr>latest_log = Some old_session,
              past_logs = Some [(''a.txt'', Regular ''first'' 5 5),
                                (''b.txt'', Regular ''second'' 0 6),
                                (''c.txt'', Regular ''third'' 7 7)]\<rparr>)"

definition locked_fresh :: logger where
  "locked_fresh =
     initial True plain_names 0 [] (Some \<lparr>latest_log = Some locked_session, past_logs = Some []\<rparr>)"

definition five_logs :: "(string \<times> node) list" where
  "five_logs =
     [(''log_2023.1.1.8-0-0.txt'', Regular ''one'' 11 11),
      (''log_2023.2.1.8-0-0.txt'', Regular ''two'' 12 12),
      (''log_2023.3.1.8-0-0.txt'', Regular ''three'' 13 13),
      (''log_2023.4.1.8-0-0.txt'', Regular ''four'' 14 14),
      (''log_2023.5.1.8-0-0.txt'', Regular ''five'' 15 15)]"

definition five_full :: logger where
  "five_full = initial True plain_names 0 [] (Some \<lparr>latest_log = Some old_session, past_logs = Some five_logs\<rparr>)"

definition six_full :: logger where
  "six_full =
     initial True plain_names 0 []
       (Some \<lparr>latest_log = Some old_session,
              past_logs = Some (five_logs @ [(''log_2023.6.1.8-0-0.txt'', Regular ''six'' 16 16)])\<rparr>)"


definition newer_copy :: logger where
  "newer_copy =
     initial True plain_names 0 []
       (Some \<lparr>latest_log = Some old_session,
              past_logs = Some [(''log_2024.1.5.10-30-0.txt'', Regular ''kept'' 1 60)]\<rparr>)"

definition older_copy :: logger where
  "older_copy =
     initial True plain_names 0 []
       (Some \<lparr>latest_log = Some old_session,
              past_logs = Some [(''log_2024.1.5.10-30-0.txt'', Regular ''stale'' 1 10)]\<rparr>)"

definition quiet :: "logger \<Rightarrow> logger" where
  "quiet s = SetLevelsToSave LOGLEVEL_ALL (SetLevelsToDisplay LOGLEVEL_NONE s)"

definition slash_session :: session_file where
  "slash_session =
     \<lparr>content = ''Created - 2024/1/5 10:30:0'' @ [newline, newline], mtime = 50,
      writable = True\<rparr>"

definition slash_fresh :: logger where
  "slash_fresh =
     initial False plain_names 0 []
       (Some \<lparr>latest_log = Some slash_session, past_logs = Some []\<rparr>)"


definition mixed_masks :: logger where
  "mixed_masks =
     SetLevelsToSave (LOGLEVEL_INFO OR LOGLEVEL_DEBUG)
       (SetLevelsToDisplay (LOGLEVEL_WARNING OR LOGLEVEL_ERROR) active_old)"



definition full_directory :: logger where
  "full_directory =
     SetNumberOfFilesToSave 1
       (initial True plain_names 0 []
          (Some \<lparr>latest_log = Some old_session,
                 past_logs = Some [(''sub'', Directory True 1),
                                   (''log_2023.1.1.8-0-0.txt'', Regular ''one'' 11 11)]\<rparr>))"




definition errors_shown :: logger where
  "errors_shown = SetLevelsToDisplay LOGLEVEL_ERROR six_full"
section \<open>Basic facts\<close>

lemma path_simps [simp]:
  "logsFilepath \<noteq> pastLogsFilepath" "logsFilepath \<noteq> latestLogFilepath"
  "latestLogFilepath \<noteq> pastLogsFilepath" "latestLogFilepath \<noteq> logsFilepath"
  "pastLogsFilepath \<noteq> logsFilepath" "pastLogsFilepath \<noteq> latestLogFilepath"
  by (simp_all add: logsFilepath_def pastLogsFilepath_def latestLogFilepath_def)

subsection \<open>Creation times and the oldest entry\<close>

lemma find_entry_outside [simp]:
  "find_entry es logsFilepath = None" "find_entry es latestLogFilepath = None"
  "find_entry es [] = None"
  by (simp_all add: find_entry_def find_None_iff logsFilepath_def pastLogsFilepath_def
        latestLogFilepath_def)

lemma find_entry_Nil [simp]: "find_entry [] p = None"
  by (simp add: find_entry_def)

lemma find_entry_past:
  "(find_entry es pastLogsFilepath = None) = ([] \<notin> fst ` set es)"
  by (auto simp: find_entry_def find_None_iff image_iff)

lemma GetFileCreationTime_fst:
  "fst (GetFileCreationTime p s) = ctime_at (platy_windows s) (archive s) p"
  by (auto simp: GetFileCreationTime_def fs_exists_def ctime_at_def archive_def find_entry_past
        split: option.splits)

lemma GetFileCreationTime_snd:
  "\<exists>X. snd (GetFileCreationTime p s) = s\<lparr>stdout := stdout s @ X\<rparr>"
proof (cases "snd (GetFileCreationTime p s) = s")
  case True
  then have "snd (GetFileCreationTime p s) = s\<lparr>stdout := stdout s @ []\<rparr>" by simp
  then show ?thesis by blast
next
  case False
  then have "snd (GetFileCreationTime p s) = s\<lparr>stdout := stdout s @ no_unix_support\<rparr>"
    by (auto simp: GetFileCreationTime_def printf_def split: option.splits if_splits)
  then show ?thesis by blast
qed

lemma GetOldestLog_loop_fst:
  "fst (GetOldestLog_loop es c s) = oldest (platy_windows s) (archive s) es c"
proof (induction es arbitrary: c s)
  case Nil
  show ?case by simp
next
  case (Cons e es)
  have frame: "platy_windows (snd (GetFileCreationTime p t)) = platy_windows t
      \<and> archive (snd (GetFileCreationTime p t)) = archive t" for p t
    using GetFileCreationTime_snd [of p t] by (auto simp: archive_def)
  show ?case
    by (simp add: Let_def Cons.IH GetFileCreationTime_fst frame)
qed

lemma GetOldestLog_loop_snd:
  "\<exists>X. snd (GetOldestLog_loop es c s) = s\<lparr>stdout := stdout s @ X\<rparr>"
proof (induction es arbitrary: c s)
  case Nil
  have "snd (GetOldestLog_loop [] c s) = s\<lparr>stdout := stdout s @ []\<rparr>" by simp
  then show ?case by blast
next
  case (Cons e es)
  have step: "\<exists>X. snd (GetOldestLog_loop es c' t) = s\<lparr>stdout := stdout s @ X\<rparr>"
    if "\<exists>Y. t = s\<lparr>stdout := stdout s @ Y\<rparr>" for c' t
  proof -
    from that obtain Y where t: "t = s\<lparr>stdout := stdout s @ Y\<rparr>" by blast
    from Cons.IH [of c' t] obtain X where "snd (GetOldestLog_loop es c' t) = t\<lparr>stdout := stdout t @ X\<rparr>"
      by blast
    with t have "snd (GetOldestLog_loop es c' t) = s\<lparr>stdout := stdout s @ (Y @ X)\<rparr>" by simp
    then show ?thesis by blast
  qed
  have ext: "\<exists>Y. snd (GetFileCreationTime p t) = s\<lparr>stdout := stdout s @ Y\<rparr>"
    if "\<exists>Y. t = s\<lparr>stdout := stdout s @ Y\<rparr>" for p t
  proof -
    from that obtain Y where t: "t = s\<lparr>stdout := stdout s @ Y\<rparr>" by blast
    from GetFileCreationTime_snd [of p t] obtain X
      where "snd (GetFileCreationTime p t) = t\<lparr>stdout := stdout t @ X\<rparr>" by blast
    with t have "snd (GetFileCreationTime p t) = s\<lparr>stdout := stdout s @ (Y @ X)\<rparr>" by simp
    then show ?thesis by blast
  qed
  have e0: "\<exists>Y. s = s\<lparr>stdout := stdout s @ Y\<rparr>"
    by (rule exI [of _ "[]"]) simp
  show ?case
    by (simp add: Let_def) (intro conjI impI step ext e0)
qed


lemma newFileLocation_eq:
  "latest_log d = Some f \<Longrightarrow> newFileLocation now (Some d) = archive_location f"
  by (simp add: newFileLocation_def archive_location_def SaveLatestLog_line_def
        fstream_open_def getline_def first_line_def)

lemma unix_notice_stdout [simp]: "unix_notice (s\<lparr>stdout := X\<rparr>) p = unix_notice s p"
  by (simp add: unix_notice_def)

lemma archive_stdout [simp]: "archive (s\<lparr>stdout := X\<rparr>) = archive s"
  by (simp add: archive_def)

lemma notices_stdout [simp]: "notices (s\<lparr>stdout := X\<rparr>) es c = notices s es c"
  by (induction es arbitrary: c) simp_all

lemma GetFileCreationTime_eq:
  "GetFileCreationTime p s =
     (ctime_at (platy_windows s) (archive s) p, s\<lparr>stdout := stdout s @ unix_notice s p\<rparr>)"
proof -
  have "snd (GetFileCreationTime p s) = s\<lparr>stdout := stdout s @ unix_notice s p\<rparr>"
    by (auto simp: GetFileCreationTime_def unix_notice_def printf_def split: option.splits)
  with GetFileCreationTime_fst [of p s] show ?thesis
    by (simp add: prod_eq_iff)
qed

lemma GetOldestLog_loop_eq:
  "GetOldestLog_loop es c s =
     (oldest (platy_windows s) (archive s) es c, s\<lparr>stdout := stdout s @ notices s es c\<rparr>)"
proof (induction es arbitrary: c s)
  case Nil
  show ?case by simp
next
  case (Cons e es)
  show ?case
    by (simp add: Let_def GetFileCreationTime_eq Cons.IH)
qed

lemma destination_prefix: "destination f = pastLogsFilepath @ destination_name f"
proof -
  have "c_str (pastLogsFilepath @ n) = pastLogsFilepath @ c_str n" for n
    by (simp add: c_str_def pastLogsFilepath_def)
  then show ?thesis
    by (simp add: destination_def destination_name_def archive_location_def)
qed

lemma c_str_plain: "CHR 0x00 \<notin> set str \<Longrightarrow> c_str str = str"
  by (auto simp: c_str_def takeWhile_eq_all_conv)

lemma SaveLatestLog_eq:
  assumes shape: "logs s = Some \<lparr>latest_log = Some f, past_logs = Some es\<rparr>"
  shows "SaveLatestLog now s =
    (if can_make_room s \<and> copy_allowed s f then
       Inr (s\<lparr>color := room_color s, stdout := stdout s @ room_text s,
              logs := Some \<lparr>latest_log = Some f,
                past_logs = Some (copy_into (platy_windows s) now f (destination f)
                  (after_room s))\<rparr>\<rparr>)
     else Inl FilesystemError)"
proof -
  have arch: "archive s = es" using shape by (simp add: archive_def)
  have ex: "fs_exists (logs s) latestLogFilepath" using shape by (simp add: fs_exists_def)
  have cnt: "CountFiles s = Inr (CountFiles_loop es 0)" using shape by (simp add: CountFiles_def)
  have copy: "fs_copy (platy_windows s) (usable_name s) now
        (Some \<lparr>latest_log = Some f, past_logs = Some (after_room s)\<rparr>) (archive_location f) =
      (if copy_allowed s f
       then Inr (Some \<lparr>latest_log = Some f,
              past_logs = Some (copy_into (platy_windows s) now f (destination f)
                (after_room s))\<rparr>)
       else Inl FilesystemError)"
    by (auto simp: fs_copy_def copy_allowed_def destination_def destination_name_def)
  show ?thesis
  proof (cases "pastLogsToKeep s \<le> CountFiles_loop es 0")
    case False
    then have room: "after_room s = es" "can_make_room s" "room_text s = []"
      "room_color s = color s"
      by (simp_all add: after_room_def can_make_room_def room_text_def room_color_def arch)
    have "SaveLatestLog now s =
        (case fs_copy (platy_windows s) (usable_name s) now
                (Some \<lparr>latest_log = Some f, past_logs = Some (after_room s)\<rparr>)
                (archive_location f) of
           Inl e \<Rightarrow> Inl e | Inr root \<Rightarrow> Inr (s\<lparr>logs := root\<rparr>))"
      using False ex cnt shape by (simp add: SaveLatestLog_def newFileLocation_eq room)
    then show ?thesis
      unfolding copy by (simp add: room)
  next
    case True
    define p where "p = oldest (platy_windows s) es es []"
    define u where "u = printf (removing_notice p) (SET_COLOR (errorColor (platy_windows s))
        (s\<lparr>stdout := stdout s @ notices s es []\<rparr>))"
    have u: "u = s\<lparr>color := room_color s, stdout := stdout s @ room_text s\<rparr>"
      using True
      by (simp add: u_def printf_def SET_COLOR_def room_color_def room_text_def arch p_def
            errorColor_def)
    have logs_u: "logs u = Some \<lparr>latest_log = Some f, past_logs = Some es\<rparr>"
      using shape by (simp add: u)
    have rem: "SaveLatestLog_remove s =
        (case fs_remove (logs u) p of Inl e \<Rightarrow> Inl e | Inr root \<Rightarrow> Inr (u\<lparr>logs := root\<rparr>))"
      unfolding u_def p_def using shape
      by (simp add: SaveLatestLog_remove_def GetOldestLog_def Let_def GetOldestLog_loop_eq arch)
    have room: "after_room s = evict (platy_windows s) es"
      using True by (simp add: after_room_def arch)
    show ?thesis
    proof (cases "can_make_room s")
      case False
      then obtain e ct where "find_entry es p = Some e" "snd e = Directory True ct"
        using True
        by (auto simp: can_make_room_def arch p_def split: option.splits elim: removable.elims)
      then have "fs_remove (logs u) p = Inl FilesystemError"
        by (simp add: fs_remove_def logs_u)
      then show ?thesis
        using False True ex cnt by (simp add: SaveLatestLog_def rem)
    next
      case ok: True
      have "fs_remove (logs u) p =
          Inr (Some \<lparr>latest_log = Some f, past_logs = Some (after_room s)\<rparr>)"
      proof (cases "find_entry es p")
        case None
        then show ?thesis by (simp add: fs_remove_def logs_u evict_def p_def room)
      next
        case (Some e)
        with ok True have "removable (snd e)"
          by (simp add: can_make_room_def arch p_def)
        with Some show ?thesis
          by (cases "snd e") (simp_all add: fs_remove_def logs_u evict_def p_def room)
      qed
      then have s2: "SaveLatestLog_remove s =
          Inr (u\<lparr>logs := Some \<lparr>latest_log = Some f, past_logs = Some (after_room s)\<rparr>\<rparr>)"
        by (simp add: rem)
      have "SaveLatestLog now s =
        (case fs_copy (platy_windows s) (usable_name s) now
                (Some \<lparr>latest_log = Some f, past_logs = Some (after_room s)\<rparr>)
                (archive_location f) of
           Inl e \<Rightarrow> Inl e
         | Inr root \<Rightarrow> Inr (s\<lparr>color := room_color s, stdout := stdout s @ room_text s,
                              logs := root\<rparr>))"
        using True ex cnt
        by (simp add: SaveLatestLog_def s2 u newFileLocation_eq split: sum.splits)
      then show ?thesis
        unfolding copy using ok by simp
    qed
  qed
qed

subsection \<open>Writing to the session file\<close>

lemma LogToFile_dirs:
  "(if \<not> fs_exists (logs s) logsFilepath \<or> \<not> fs_exists (logs s) pastLogsFilepath
    then CreateLoggingDirectories s else s) = prepared s"
  by (cases s; cases "logs s")
     (auto simp: prepared_def session_def archive_def fs_exists_def CreateLoggingDirectories_def
       create_directory_def split: option.splits)

lemma prepared_simps [simp]:
  "logs (prepared s) = Some \<lparr>latest_log = session s, past_logs = Some (archive s)\<rparr>"
  "session (prepared s) = session s" "archive (prepared s) = archive s"
  "shouldCreateNewFile (prepared s) = shouldCreateNewFile s"
  "stdout (prepared s) = stdout s" "color (prepared s) = color s"
  "platy_windows (prepared s) = platy_windows s"
  "usable_name (prepared s) = usable_name s"
  "pastLogsToKeep (prepared s) = pastLogsToKeep s"
  "logLevelsToDisplay (prepared s) = logLevelsToDisplay s"
  "logLevelsToSave (prepared s) = logLevelsToSave s"
  by (simp_all add: prepared_def session_def archive_def)

lemma after_room_prepared [simp]: "after_room (prepared s) = after_room s"
  by (simp add: after_room_def)

lemma can_make_room_prepared [simp]: "can_make_room (prepared s) = can_make_room s"
  by (simp add: can_make_room_def)

lemma copy_allowed_prepared [simp]: "copy_allowed (prepared s) f = copy_allowed s f"
  by (simp add: copy_allowed_def)

lemma can_archive_prepared [simp]: "can_archive (prepared s) = can_archive s"
  by (cases "session s") (simp_all add: can_archive_def)

lemma LogToFile_active:
  assumes "\<not> shouldCreateNewFile s"
  shows "LogToFile clk h m s =
    Inr (case session s of
           None \<Rightarrow>
             s\<lparr>logs := Some \<lparr>latest_log =
                    Some \<lparr>content = record_line h m, mtime = r_now clk, writable = True\<rparr>,
                  past_logs = Some (archive s)\<rparr>\<rparr>
         | Some f \<Rightarrow>
             if writable f then
               s\<lparr>logs := Some \<lparr>latest_log =
                      Some (f\<lparr>content := content f @ record_line h m, mtime := r_now clk\<rparr>),
                    past_logs = Some (archive s)\<rparr>\<rparr>
             else
               s\<lparr>logLevelsToSave := 0,
                 logs := Some \<lparr>latest_log = Some f, past_logs = Some (archive s)\<rparr>\<rparr>)"
  using assms unfolding LogToFile_def LogToFile_dirs
  by (cases s)
     (auto simp: Let_def fstream_open_def fstream_put_def LogToFile_write_def prepared_def
        SetLevelsToSave_def LOGLEVEL_NONE_def split: option.splits)

lemma LogToFile_fresh_new:
  assumes "shouldCreateNewFile s" "session s = None"
  shows "LogToFile clk h m s =
    Inr (s\<lparr>shouldCreateNewFile := False,
           logs := Some \<lparr>latest_log =
               Some \<lparr>content = creationDate (r_created clk) @ record_line h m,
                     mtime = r_now clk, writable = True\<rparr>,
             past_logs = Some (archive s)\<rparr>\<rparr>)"
  using assms unfolding LogToFile_def LogToFile_dirs
  by (cases s)
     (auto simp: Let_def fs_exists_def fstream_open_def fstream_put_def LogToFile_write_def
        prepared_def split: option.splits)

lemma unix_notice_prepared:
  assumes "p = [] \<or> p \<in> (\<lambda>e. pastLogsFilepath @ fst e) ` set (archive s)"
  shows "unix_notice (prepared s) p = unix_notice s p"
proof -
  have "fs_exists (logs (prepared s)) p = fs_exists (logs s) p"
  proof (cases "p = []")
    case True
    then show ?thesis
      by (simp add: fs_exists_def logsFilepath_def latestLogFilepath_def pastLogsFilepath_def
            split: option.splits)
  next
    case False
    with assms obtain e where e: "e \<in> set (archive s)" "p = pastLogsFilepath @ fst e" by auto
    then have ne: "archive s \<noteq> []" by auto
    then obtain d where d1: "logs s = Some d"
      by (cases "logs s") (auto simp: archive_def)
    with ne obtain es where d2: "past_logs d = Some es"
      by (cases "past_logs d") (auto simp: archive_def)
    have d: "logs s = Some d" "past_logs d = Some (archive s)"
      using d1 d2 by (simp_all add: archive_def)
    have "p \<noteq> logsFilepath" "p \<noteq> latestLogFilepath"
      using e(2) by (simp_all add: logsFilepath_def latestLogFilepath_def pastLogsFilepath_def)
    then show ?thesis
      using d by (simp add: fs_exists_def)
  qed
  then show ?thesis by (simp add: unix_notice_def)
qed

lemma notices_prepared:
  assumes "set es \<subseteq> set (archive s)"
    and "c = [] \<or> c \<in> (\<lambda>e. pastLogsFilepath @ fst e) ` set (archive s)"
  shows "notices (prepared s) es c = notices s es c"
  using assms
proof (induction es arbitrary: c)
  case Nil
  show ?case by simp
next
  case (Cons e es)
  have f: "pastLogsFilepath @ fst e \<in> (\<lambda>e. pastLogsFilepath @ fst e) ` set (archive s)"
    using Cons.prems(1) by auto
  have sub: "set es \<subseteq> set (archive s)" using Cons.prems(1) by simp
  have "notices (prepared s) es c = notices s es c"
    by (rule Cons.IH [OF sub Cons.prems(2)])
  moreover have "notices (prepared s) es (pastLogsFilepath @ fst e) =
      notices s es (pastLogsFilepath @ fst e)"
    using f by (intro Cons.IH [OF sub]) simp
  ultimately show ?case
    using unix_notice_prepared [OF Cons.prems(2)] unix_notice_prepared [of "pastLogsFilepath @ fst e" s] f
    by simp
qed

lemma room_simps [simp]:
  "room_text (prepared s) = room_text s" "room_color (prepared s) = room_color s"
  by (simp_all add: room_text_def room_color_def notices_prepared)

lemma LogToFile_fresh_old_eq:
  assumes fresh: "shouldCreateNewFile s" and old: "session s = Some f"
  shows "LogToFile clk h m s =
    (if can_make_room s \<and> copy_allowed s f then
       Inr (s\<lparr>color := room_color s, stdout := stdout s @ room_text s,
              shouldCreateNewFile := False,
              logLevelsToSave := (if writable f then logLevelsToSave s else 0),
              logs := Some \<lparr>latest_log =
                  Some (if writable f
                        then f\<lparr>content := creationDate (r_created clk) @ record_line h m,
                                mtime := r_now clk\<rparr>
                        else f),
                past_logs = Some (copy_into (platy_windows s) (r_now clk) f
                  (destination f) (after_room s))\<rparr>\<rparr>)
     else Inl FilesystemError)"
proof -
  have shape: "logs (prepared s) = Some \<lparr>latest_log = Some f, past_logs = Some (archive s)\<rparr>"
    using old by simp
  have ex: "fs_exists (logs (prepared s)) latestLogFilepath"
    using old by (simp add: fs_exists_def)
  have save: "SaveLatestLog (r_now clk) (prepared s) =
    (if can_make_room s \<and> copy_allowed s f then
       Inr ((prepared s)\<lparr>color := room_color s, stdout := stdout s @ room_text s,
              logs := Some \<lparr>latest_log = Some f,
                past_logs = Some (copy_into (platy_windows s) (r_now clk) f
                  (destination f) (after_room s))\<rparr>\<rparr>)
     else Inl FilesystemError)"
    by (simp add: SaveLatestLog_eq [OF shape])
  show ?thesis
  proof (cases "can_make_room s \<and> copy_allowed s f")
    case False
    have "SaveLatestLog (r_now clk) (prepared s) = Inl FilesystemError"
      by (simp only: save if_not_P [OF False])
    then show ?thesis
      unfolding LogToFile_def LogToFile_dirs using fresh ex
      by (simp add: if_not_P [OF False])
  next
    case True
    have s2: "SaveLatestLog (r_now clk) (prepared s) =
       Inr ((prepared s)\<lparr>color := room_color s, stdout := stdout s @ room_text s,
              logs := Some \<lparr>latest_log = Some f,
                past_logs = Some (copy_into (platy_windows s) (r_now clk) f
                  (destination f) (after_room s))\<rparr>\<rparr>)"
      by (simp only: save if_P [OF True])
    define s2 where "s2 = (prepared s)\<lparr>color := room_color s, stdout := stdout s @ room_text s,
              logs := Some \<lparr>latest_log = Some f,
                past_logs = Some (copy_into (platy_windows s) (r_now clk) f
                  (destination f) (after_room s))\<rparr>\<rparr>"
    have s2': "SaveLatestLog (r_now clk) (prepared s) = Inr s2"
      unfolding s2_def by (rule s2)
    have step: "LogToFile clk h m s =
        Inr (let r = fstream_open (r_now clk) ios_out (logs s2);
                 s3 = s2\<lparr>logs := snd r, shouldCreateNewFile := False\<rparr>;
                 s4 = (if fst r
                       then s3\<lparr>logs := fstream_put (r_now clk)
                                        (creationDate (r_created clk)) (logs s3)\<rparr>
                       else s3)
             in LogToFile_write (r_now clk) (fst r) h m s4)"
      unfolding LogToFile_def LogToFile_dirs using fresh ex by (simp add: s2' Let_def)
    have logs2: "logs s2 = Some \<lparr>latest_log = Some f,
                past_logs = Some (copy_into (platy_windows s) (r_now clk) f
                  (destination f) (after_room s))\<rparr>"
      by (simp add: s2_def)
    have fin: "(let r = fstream_open (r_now clk) ios_out (logs s2);
                 s3 = s2\<lparr>logs := snd r, shouldCreateNewFile := False\<rparr>;
                 s4 = (if fst r
                       then s3\<lparr>logs := fstream_put (r_now clk)
                                        (creationDate (r_created clk)) (logs s3)\<rparr>
                       else s3)
             in LogToFile_write (r_now clk) (fst r) h m s4) =
          s2\<lparr>shouldCreateNewFile := False,
              logLevelsToSave := (if writable f then logLevelsToSave s2 else 0),
              logs := Some \<lparr>latest_log =
                  Some (if writable f
                        then f\<lparr>content := creationDate (r_created clk) @ record_line h m,
                                mtime := r_now clk\<rparr>
                        else f),
                past_logs = Some (copy_into (platy_windows s) (r_now clk) f
                  (destination f) (after_room s))\<rparr>\<rparr>"
      unfolding logs2
      by (simp add: Let_def fstream_open_def fstream_put_def LogToFile_write_def
            SetLevelsToSave_def LOGLEVEL_NONE_def)
    show ?thesis
      unfolding step fin if_P [OF True] by (simp add: s2_def prepared_def)
  qed
qed

subsection \<open>When a call returns\<close>



lemma LogToFile_returns:
  assumes "\<not> shouldCreateNewFile s \<or> can_archive s"
  shows "\<exists>s'. LogToFile clk h m s = Inr s'"
proof (cases "shouldCreateNewFile s")
  case False
  then show ?thesis using LogToFile_active [of s clk h m] by simp
next
  case True
  show ?thesis
  proof (cases "session s")
    case None
    then show ?thesis using True LogToFile_fresh_new [of s clk h m] by simp
  next
    case (Some f)
    with assms True have ok: "can_make_room s \<and> copy_allowed s f"
      by (simp add: can_archive_def)
    show ?thesis
      unfolding LogToFile_fresh_old_eq [OF True Some] if_P [OF ok] by blast
  qed
qed


lemma SaveLatestLog_prepared:
  assumes "session s = Some f"
  shows "SaveLatestLog now (prepared s) =
    (if can_archive s then
       Inr ((prepared s)\<lparr>color := room_color s, stdout := stdout s @ room_text s,
              logs := Some \<lparr>latest_log = Some f,
                past_logs = Some (copy_into (platy_windows s) now f (destination f)
                  (after_room s))\<rparr>\<rparr>)
     else Inl FilesystemError)"
proof -
  have shape: "logs (prepared s) = Some \<lparr>latest_log = Some f, past_logs = Some (archive s)\<rparr>"
    using assms by simp
  have "can_archive s = (can_make_room s \<and> copy_allowed s f)"
    using assms by (simp add: can_archive_def)
  then show ?thesis
    by (simp add: SaveLatestLog_eq [OF shape])
qed

subsection \<open>The logging calls\<close>

lemma log_at_Log:
  "log_at l clk msg s =
     Log clk (level_bit l) (level_name l) (level_color l (platy_windows s)) msg s"
  by (cases l) (simp_all add: Trace_def Info_def Debug_def Warning_def Error_def Fatal_def)

lemma level_bit_test:
  "(m AND level_bit l \<noteq> 0) = bit m (level_index l)"
proof -
  have "(m AND push_bit n 1 \<noteq> 0) = bit m n" for n
    by (metis and_exp_eq_0_iff_not_bit push_bit_of_1)
  from this [of 0] this [of 1] this [of 2] this [of 3] this [of 4] this [of 5]
  show ?thesis
    by (cases l)
       (simp_all add: LOGLEVEL_TRACE_def LOGLEVEL_INFO_def LOGLEVEL_DEBUG_def
          LOGLEVEL_WARNING_def LOGLEVEL_ERROR_def LOGLEVEL_FATAL_def)
qed

lemma Log_eq:
  "Log clk b name col msg s =
     (let s1 = (SET_COLOR col s)\<lparr>stdout := stdout s @
                  (if logLevelsToDisplay s AND b \<noteq> 0
                   then record_line (header_of clk name) msg else [])\<rparr>
      in if logLevelsToSave s AND b \<noteq> 0
         then LogToFile clk (header_of clk name) msg s1 else Inr s1)"
  by (simp add: Log_def Let_def SET_COLOR_def printf_def)

lemma console_done_simps [simp]:
  "logs (console_done l clk msg s) = logs s"
  "session (console_done l clk msg s) = session s"
  "archive (console_done l clk msg s) = archive s"
  "session_text (console_done l clk msg s) = session_text s"
  "shouldCreateNewFile (console_done l clk msg s) = shouldCreateNewFile s"
  "platy_windows (console_done l clk msg s) = platy_windows s"
  "pastLogsToKeep (console_done l clk msg s) = pastLogsToKeep s"
  "logLevelsToDisplay (console_done l clk msg s) = logLevelsToDisplay s"
  "logLevelsToSave (console_done l clk msg s) = logLevelsToSave s"
  "after_room (console_done l clk msg s) = after_room s"
  "can_make_room (console_done l clk msg s) = can_make_room s"
  "copy_allowed (console_done l clk msg s) f = copy_allowed s f"
  "usable_name (console_done l clk msg s) = usable_name s"
  "session_opens (console_done l clk msg s) = session_opens s"
  "stdout (console_done l clk msg s) = stdout s @
     (if logLevelsToDisplay s AND level_bit l \<noteq> 0
      then record_line (header_of clk (level_name l)) msg else [])"
  by (simp_all add: console_done_def SET_COLOR_def session_def archive_def session_text_def
        after_room_def can_make_room_def session_opens_def copy_allowed_def)

lemma log_at_eq:
  "log_at l clk msg s =
     (if logLevelsToSave s AND level_bit l \<noteq> 0
      then LogToFile clk (header_of clk (level_name l)) msg (console_done l clk msg s)
      else Inr (console_done l clk msg s))"
  by (simp add: log_at_Log Log_eq console_done_def Let_def)

lemma can_archive_console_done [simp]:
  "can_archive (console_done l clk msg s) = can_archive s"
  by (cases "session s") (simp_all add: can_archive_def)

lemma room_text_console_done [simp]: "room_text (console_done l clk msg s) = room_text s"
proof -
  have "notices (console_done l clk msg s) es c = notices s es c" for es c
    by (induction es arbitrary: c) (simp_all add: unix_notice_def)
  then show ?thesis by (simp add: room_text_def)
qed

lemma LogToFile_fresh_old_Inr:
  assumes fresh: "shouldCreateNewFile s" and old: "session s = Some f"
    and ret: "LogToFile clk h m s = Inr s'"
  shows "can_archive s \<and> s' =
    s\<lparr>color := room_color s, stdout := stdout s @ room_text s,
      shouldCreateNewFile := False,
      logLevelsToSave := (if writable f then logLevelsToSave s else 0),
      logs := Some \<lparr>latest_log =
          Some (if writable f
                then f\<lparr>content := creationDate (r_created clk) @ record_line h m,
                        mtime := r_now clk\<rparr>
                else f),
        past_logs = Some (copy_into (platy_windows s) (r_now clk) f (destination f)
          (after_room s))\<rparr>\<rparr>"
proof (cases "can_make_room s \<and> copy_allowed s f")
  case False
  from ret show ?thesis
    unfolding LogToFile_fresh_old_eq [OF fresh old] if_not_P [OF False] by simp
next
  case True
  then have "can_archive s" using old by (simp add: can_archive_def)
  moreover from ret have "s' =
    s\<lparr>color := room_color s, stdout := stdout s @ room_text s,
      shouldCreateNewFile := False,
      logLevelsToSave := (if writable f then logLevelsToSave s else 0),
      logs := Some \<lparr>latest_log =
          Some (if writable f
                then f\<lparr>content := creationDate (r_created clk) @ record_line h m,
                        mtime := r_now clk\<rparr>
                else f),
        past_logs = Some (copy_into (platy_windows s) (r_now clk) f (destination f)
          (after_room s))\<rparr>\<rparr>"
    unfolding LogToFile_fresh_old_eq [OF fresh old] if_P [OF True] by simp
  ultimately show ?thesis by simp
qed

lemma LogToFile_text:
  assumes "session_opens s" "LogToFile clk h m s = Inr s'"
  shows "session_text s' =
    (if shouldCreateNewFile s then creationDate (r_created clk) else session_text s) @
    record_line h m"
proof (cases "shouldCreateNewFile s")
  case False
  with assms LogToFile_active [of s clk h m] show ?thesis
    by (auto simp: session_text_def session_def session_opens_def split: option.splits)
next
  case True
  show ?thesis
  proof (cases "session s")
    case None
    with True assms LogToFile_fresh_new [of s clk h m] show ?thesis
      by (auto simp: session_text_def session_def)
  next
    case (Some f)
    with assms have "writable f" by (simp add: session_opens_def)
    with LogToFile_fresh_old_Inr [OF True Some assms(2)] True show ?thesis
      by (simp add: session_text_def session_def)
  qed
qed

lemma LogToFile_active_frame:
  assumes "\<not> shouldCreateNewFile s"
  shows "\<exists>s'. LogToFile clk h m s = Inr s' \<and> \<not> shouldCreateNewFile s' \<and> archive s' = archive s"
proof (cases "session s")
  case None
  then show ?thesis using assms LogToFile_active [OF assms, of clk h m]
    by (simp add: archive_def)
next
  case (Some f)
  then show ?thesis using assms LogToFile_active [OF assms, of clk h m]
    by (cases "writable f") (simp_all add: archive_def)
qed

lemma log_at_active:
  assumes "\<not> shouldCreateNewFile s"
  shows "\<exists>s'. log_at l clk msg s = Inr s' \<and> \<not> shouldCreateNewFile s' \<and> archive s' = archive s"
proof (cases "logLevelsToSave s AND level_bit l \<noteq> 0")
  case False
  then show ?thesis using assms by (simp add: log_at_eq)
next
  case True
  have "\<not> shouldCreateNewFile (console_done l clk msg s)" using assms by simp
  from LogToFile_active_frame [OF this, of clk "header_of clk (level_name l)" msg] True
  show ?thesis
    by (simp add: log_at_eq)
qed

lemma call_step_active:
  assumes "\<not> shouldCreateNewFile s"
  shows "\<exists>s'. call_step c s = Inr s' \<and> \<not> shouldCreateNewFile s' \<and> archive s' = archive s"
  using assms log_at_active [OF assms]
  by (cases c)
     (simp_all add: SetLevelsToDisplay_def SetLevelsToSave_def SetNumberOfFilesToSave_def
        archive_def)

lemma run_active:
  "\<not> shouldCreateNewFile s \<Longrightarrow>
     \<exists>s'. run cs s = Inr s' \<and> \<not> shouldCreateNewFile s' \<and> archive s' = archive s"
proof (induction cs arbitrary: s)
  case Nil
  then show ?case by simp
next
  case (Cons c cs)
  from call_step_active [OF Cons.prems, of c] obtain s1 where
    s1: "call_step c s = Inr s1" "\<not> shouldCreateNewFile s1" "archive s1 = archive s"
    by blast
  from Cons.IH [OF s1(2)] s1 show ?case by auto
qed

lemma LogToFile_fresh_flag:
  assumes "shouldCreateNewFile s" "LogToFile clk h m s = Inr s'"
  shows "\<not> shouldCreateNewFile s'
    \<and> (\<forall>f. session s = Some f \<longrightarrow>
          can_archive s \<and>
          session s' =
            Some (if writable f
                  then f\<lparr>content := creationDate (r_created clk) @ record_line h m,
                          mtime := r_now clk\<rparr>
                  else f) \<and>
          logLevelsToSave s' = (if writable f then logLevelsToSave s else 0) \<and>
          archive s' = copy_into (platy_windows s) (r_now clk) f (destination f)
            (after_room s))
    \<and> (session s = None \<longrightarrow> archive s' = archive s)"
proof (cases "session s")
  case None
  with assms LogToFile_fresh_new [of s clk h m] show ?thesis
    by (auto simp: archive_def)
next
  case (Some f)
  from LogToFile_fresh_old_Inr [OF assms(1) Some assms(2)] Some show ?thesis
    by (simp add: archive_def session_def)
qed

lemma LogToFile_cong:
  assumes "shouldCreateNewFile t = shouldCreateNewFile s" "logs t = logs s"
    "platy_windows t = platy_windows s" "pastLogsToKeep t = pastLogsToKeep s"
    "usable_name t = usable_name s"
  shows "map_sum id logs (LogToFile clk h m t) = map_sum id logs (LogToFile clk h m s)"
proof -
  have same: "session t = session s" "archive t = archive s" "after_room t = after_room s"
    "can_make_room t = can_make_room s" "copy_allowed t f = copy_allowed s f" for f
    using assms
    by (simp_all add: session_def archive_def after_room_def can_make_room_def copy_allowed_def)
  show ?thesis
  proof (cases "shouldCreateNewFile s")
    case False
    then have "\<not> shouldCreateNewFile t" using assms by simp
    from LogToFile_active [OF this, of clk h m] LogToFile_active [OF False, of clk h m]
    show ?thesis by (simp add: same split: option.splits)
  next
    case True
    then have t: "shouldCreateNewFile t" using assms by simp
    show ?thesis
    proof (cases "session s")
      case None
      with LogToFile_fresh_new [OF True, of clk h m] LogToFile_fresh_new [OF t, of clk h m]
      show ?thesis by (simp add: same)
    next
      case (Some f)
      then have tf: "session t = Some f" by (simp add: same)
      show ?thesis
        unfolding LogToFile_fresh_old_eq [OF True Some] LogToFile_fresh_old_eq [OF t tf]
        by (simp add: same assms)
    qed
  qed
qed

lemma LogToFile_stdout:
  assumes "LogToFile clk h m s = Inr s'"
  shows "stdout s' = stdout s @
    (if shouldCreateNewFile s \<and> session s \<noteq> None then room_text s else [])"
proof (cases "shouldCreateNewFile s")
  case False
  with assms LogToFile_active [OF False, of clk h m] show ?thesis
    by (auto split: option.splits if_splits)
next
  case True
  show ?thesis
  proof (cases "session s")
    case None
    with assms True LogToFile_fresh_new [OF True, of clk h m] show ?thesis by auto
  next
    case (Some f)
    with True LogToFile_fresh_old_Inr [OF True Some assms] show ?thesis by simp
  qed
qed

lemma level_bit_inj: "level_bit l = level_bit l' \<Longrightarrow> l = l'"
  by (cases l; cases l')
     (simp_all add: LOGLEVEL_TRACE_def LOGLEVEL_INFO_def LOGLEVEL_DEBUG_def
        LOGLEVEL_WARNING_def LOGLEVEL_ERROR_def LOGLEVEL_FATAL_def)

lemma level_index_less: "level_index l < 6"
  by (cases l) simp_all

declare digits.simps [simp del]


subsection \<open>The entry that is removed\<close>

lemma oldest_nonzero:
  assumes nz: "\<forall>e \<in> set es. ctime_at win all (pastLogsFilepath @ fst e) \<noteq> 0"
  shows "(oldest win all es c = c \<or> oldest win all es c \<in> (\<lambda>e. pastLogsFilepath @ fst e) ` set es)
    \<and> (\<forall>e \<in> set es. ctime_at win all (oldest win all es c) \<le> ctime_at win all (pastLogsFilepath @ fst e))
    \<and> (ctime_at win all c \<noteq> 0 \<longrightarrow> ctime_at win all (oldest win all es c) \<le> ctime_at win all c)
    \<and> (es \<noteq> [] \<longrightarrow> ctime_at win all c = 0 \<longrightarrow> oldest win all es c \<in> (\<lambda>e. pastLogsFilepath @ fst e) ` set es)"
  using nz
proof (induction es arbitrary: c)
  case Nil
  show ?case by simp
next
  case (Cons e es)
  let ?f = "pastLogsFilepath @ fst e"
  have fz: "ctime_at win all ?f \<noteq> 0" using Cons.prems by simp
  have rest: "\<forall>e \<in> set es. ctime_at win all (pastLogsFilepath @ fst e) \<noteq> 0"
    using Cons.prems by simp
  note ih_f = Cons.IH [OF rest, of ?f]
  note ih_c = Cons.IH [OF rest, of c]
  show ?case
  proof (cases "ctime_at win all c > ctime_at win all ?f \<or> ctime_at win all c = 0")
    case True
    then have eq: "oldest win all (e # es) c = oldest win all es ?f" by simp
    have le_f: "ctime_at win all (oldest win all es ?f) \<le> ctime_at win all ?f"
      using ih_f fz by blast
    show ?thesis
      unfolding eq using ih_f le_f True fz
      by (auto simp: word_less_def word_le_def)
  next
    case False
    then have eq: "oldest win all (e # es) c = oldest win all es c" by simp
    have cz: "ctime_at win all c \<noteq> 0" and le: "ctime_at win all c \<le> ctime_at win all ?f"
      using False by (auto simp: not_less)
    have le_c: "ctime_at win all (oldest win all es c) \<le> ctime_at win all c"
      using ih_c cz by blast
    show ?thesis
      unfolding eq using ih_c le_c le cz
      by (auto simp: word_less_def word_le_def)
  qed
qed

lemma find_entry_Cons:
  "find_entry (e # es) p = (if pastLogsFilepath @ fst e = p then Some e else find_entry es p)"
  by (simp add: find_entry_def)

lemma find_entry_distinct:
  "distinct (map fst es) \<Longrightarrow> e \<in> set es \<Longrightarrow> find_entry es (pastLogsFilepath @ fst e) = Some e"
  by (induction es) (auto simp: find_entry_Cons rev_image_eqI)


lemma GetOldestLog_smallest:
  assumes win: "platy_windows s"
    and shape: "logs s = Some \<lparr>latest_log = l, past_logs = Some es\<rparr>"
    and ne: "es \<noteq> []" and dist: "distinct (map fst es)"
    and nz: "\<forall>e \<in> set es. creation_time (snd e) \<noteq> 0"
  shows "\<exists>e \<in> set es. map_sum id fst (GetOldestLog s) = Inr (pastLogsFilepath @ fst e)
           \<and> (\<forall>e' \<in> set es. creation_time (snd e) \<le> creation_time (snd e'))"
proof -
  have ct: "ctime_at True es (pastLogsFilepath @ fst e) = creation_time (snd e)"
    if "e \<in> set es" for e
    using find_entry_distinct [OF dist that] by (simp add: ctime_at_def)
  have nz': "\<forall>e \<in> set es. ctime_at True es (pastLogsFilepath @ fst e) \<noteq> 0"
    using nz ct by simp
  have c0: "ctime_at True es [] = 0" by (simp add: ctime_at_def)
  from oldest_nonzero [OF nz', of "[]"] ne c0
  obtain e where e: "e \<in> set es" "oldest True es es [] = pastLogsFilepath @ fst e"
    and least: "\<forall>e' \<in> set es. ctime_at True es (oldest True es es []) \<le>
        ctime_at True es (pastLogsFilepath @ fst e')"
    by auto
  have arch: "archive s = es" using shape by (simp add: archive_def)
  have "map_sum id fst (GetOldestLog s) = Inr (pastLogsFilepath @ fst e)"
    using shape win e(2) by (simp add: GetOldestLog_def GetOldestLog_loop_fst arch)
  moreover have "\<forall>e' \<in> set es. creation_time (snd e) \<le> creation_time (snd e')"
    using least e ct by simp
  ultimately show ?thesis using e(1) by blast
qed

subsection \<open>The copy into the archive\<close>

lemma archive_location_prefix:
  "\<exists>n. archive_location f = pastLogsFilepath @ n"
  by (simp add: archive_location_def)

lemma find_entry_copy_into_other:
  "p \<noteq> pastLogsFilepath @ n \<Longrightarrow>
     find_entry (copy_into win now f (pastLogsFilepath @ n) es) p = find_entry es p"
  by (induction es) (auto simp: find_entry_Cons)

lemma find_entry_copy_into_new:
  "find_entry es (pastLogsFilepath @ n) = None \<Longrightarrow>
     find_entry (copy_into win now f (pastLogsFilepath @ n) es) (pastLogsFilepath @ n) =
       Some (n, Regular (content f) now (if win then mtime f else now))"
  by (induction es) (auto simp: find_entry_Cons split: if_splits)

lemma find_entry_copy_into_old:
  "find_entry es (pastLogsFilepath @ n) = Some e \<Longrightarrow>
     find_entry (copy_into win now f (pastLogsFilepath @ n) es) (pastLogsFilepath @ n) =
       Some (fst e,
         (case snd e of
            Regular c ct mt \<Rightarrow>
              if mt < mtime f then Regular (content f) ct (if win then mtime f else now)
              else Regular c ct mt
          | Directory ne ct \<Rightarrow> Directory True ct))"
  by (induction es) (auto simp: find_entry_Cons split: if_splits)

lemma length_copy_into:
  "length (copy_into win now f (pastLogsFilepath @ n) es) =
     (if find_entry es (pastLogsFilepath @ n) = None then Suc (length es) else length es)"
  by (induction es) (auto simp: find_entry_Cons)






lemma banner_name:
  "SaveLatestLog_name ''Created - 2024. 1. 5. 10:30:0'' = ''log_2024.1.5.10-30-0.txt''"
  by code_simp

subsection \<open>Counting the archive\<close>




lemma copy_into_text:
  assumes "takes_copy f es (pastLogsFilepath @ n)"
  shows "\<exists>x ct mt. find_entry (copy_into win now f (pastLogsFilepath @ n) es)
      (pastLogsFilepath @ n) = Some (x, Regular (content f) ct mt)"
proof (cases "find_entry es (pastLogsFilepath @ n)")
  case None
  from find_entry_copy_into_new [OF None, of win now f] show ?thesis by blast
next
  case (Some e)
  with assms obtain c ct mt where e: "snd e = Regular c ct mt" "mt < mtime f"
    by (auto simp: takes_copy_def split: node.splits)
  from find_entry_copy_into_old [OF Some, of win now f] e show ?thesis by simp
qed

lemma archived_text_copy:
  assumes "archive s' = copy_into win now f (destination f) es" "takes_copy f es (destination f)"
  shows "archived_text s' (destination f) = Some (content f)"
proof -
  from copy_into_text [of f es "destination_name f" win now] assms(2)
  obtain x ct mt where "find_entry (copy_into win now f (destination f) es) (destination f) =
      Some (x, Regular (content f) ct mt)"
    by (auto simp: destination_prefix)
  then show ?thesis by (simp add: archived_text_def assms(1))
qed

lemma archived_text_other:
  assumes "archive s' = copy_into win now f (destination f) es" "p \<noteq> destination f"
  shows "find_entry (archive s') p = find_entry es p"
  using assms find_entry_copy_into_other [of p "destination_name f" win now f es]
  by (simp add: destination_prefix)

lemma destination_banner:
  assumes "writable f"
    and "takeWhile (\<lambda>c. c \<noteq> newline) (content f) = ''Created - 2024. 1. 5. 10:30:0''"
  shows "destination f = ''./logs/past_logs/log_2024.1.5.10-30-0.txt''"
    and "destination_name f = ''log_2024.1.5.10-30-0.txt''"
    and "archive_location f = ''./logs/past_logs/log_2024.1.5.10-30-0.txt''"
proof -
  have line: "first_line f = ''Created - 2024. 1. 5. 10:30:0''"
    using assms by (simp add: first_line_def)
  show loc: "archive_location f = ''./logs/past_logs/log_2024.1.5.10-30-0.txt''"
    by (simp add: archive_location_def line banner_name pastLogsFilepath_def)
  show dest: "destination f = ''./logs/past_logs/log_2024.1.5.10-30-0.txt''"
    unfolding destination_def loc by (simp add: c_str_def)
  show "destination_name f = ''log_2024.1.5.10-30-0.txt''"
    unfolding destination_name_def dest by (simp add: pastLogsFilepath_def)
qed

subsection \<open>Lines\<close>

lemma digit_newline: "k < 10 \<Longrightarrow> char_of (48 + k) \<noteq> newline" for k :: nat
proof
  assume k: "k < 10" and "char_of (48 + k) = newline"
  then have "of_char (char_of (48 + k) :: char) = (of_char newline :: nat)" by simp
  then have "(48 + k) mod 256 = 10" by (simp add: newline_def)
  with k show False by simp
qed

lemma digits_newline: "newline \<notin> set (digits n)"
proof (induction n rule: digits.induct)
  case (1 n)
  show ?case
  proof (cases "n < 10")
    case True
    then have "digits n = [char_of (48 + n)]" by (subst digits.simps) simp
    with digit_newline [OF True] show ?thesis by simp
  next
    case False
    then have "digits n = digits (n div 10) @ [char_of (48 + n mod 10)]"
      by (subst digits.simps) simp
    moreover have "newline \<notin> set (digits (n div 10))" using 1 False by simp
    moreover have "char_of (48 + n mod 10) \<noteq> newline" by (rule digit_newline) simp
    ultimately show ?thesis by simp
  qed
qed

lemma show_int_newline: "newline \<notin> set (show_int i)"
proof -
  have "newline \<noteq> CHR ''-''" by (simp add: newline_def)
  then show ?thesis by (simp add: show_int_def digits_newline)
qed

lemma level_name_newline: "newline \<notin> set (level_name l)"
  by (cases l) (simp_all add: newline_def)

lemma record_line_count:
  assumes "newline \<notin> set msg"
  shows "count_list (record_line (header_of clk (level_name l)) msg) newline = 1"
proof -
  have lits: "newline \<noteq> CHR ''[''" "newline \<noteq> CHR '':''" "newline \<noteq> CHR '']''"
    "newline \<noteq> CHR '' ''" "newline \<noteq> CHR ''<''" "newline \<noteq> CHR ''>''" "newline \<noteq> CHR ''-''"
    by (simp_all add: newline_def)
  have "newline \<notin> set (header_of clk (level_name l) @ '' - '' @ msg)"
    using assms lits by (simp add: header_of_def show_int_newline level_name_newline)
  then have "count_list (header_of clk (level_name l) @ '' - '' @ msg) newline = 0"
    by (simp only: count_list_0_iff not_False_eq_True)
  moreover have "record_line (header_of clk (level_name l)) msg =
      (header_of clk (level_name l) @ '' - '' @ msg) @ [newline]"
    by (simp add: record_line_def)
  ultimately show ?thesis by (simp only: count_list_append) simp
qed

subsection \<open>Files that do not open, and the range of the count\<close>




lemma LogToFile_unopened:
  assumes "\<not> session_opens s" "LogToFile clk h m s = Inr s'"
  shows "session s' = session s \<and> logLevelsToSave s' = LOGLEVEL_NONE
    \<and> session_text s' = session_text s"
proof -
  from assms(1) obtain f where f: "session s = Some f" "\<not> writable f"
    by (auto simp: session_opens_def split: option.splits)
  have "session s' = Some f \<and> logLevelsToSave s' = 0"
  proof (cases "shouldCreateNewFile s")
    case True
    from LogToFile_fresh_flag [OF True assms(2)] f show ?thesis by simp
  next
    case False
    from LogToFile_active [OF False, of clk h m] assms(2) f show ?thesis
      by (auto simp: session_def)
  qed
  then show ?thesis using f by (simp add: LOGLEVEL_NONE_def session_text_def)
qed

lemma all_saved: "LOGLEVEL_ALL AND level_bit l \<noteq> 0"
  by (induct l) code_simp+

section \<open>The claims\<close>

text \<open>
  C10. Each of the three configuration calls changes its own variable and nothing else:
  \<^verbatim>\<open>SetLevelsToDisplay\<close> stores the display mask, \<^verbatim>\<open>SetLevelsToSave\<close> the persist mask,
  \<^verbatim>\<open>SetNumberOfFilesToSave\<close> the retention limit, and each leaves the other two, the
  rotation flag, the console and the file system as they were. (The three paths are
  constants of the program.)
\<close>

theorem setters_frame:
  "logLevelsToDisplay (SetLevelsToDisplay m s) = m
   \<and> SetLevelsToDisplay m s = s\<lparr>logLevelsToDisplay := m\<rparr>
   \<and> logLevelsToSave (SetLevelsToDisplay m s) = logLevelsToSave s
   \<and> pastLogsToKeep (SetLevelsToDisplay m s) = pastLogsToKeep s
   \<and> shouldCreateNewFile (SetLevelsToDisplay m s) = shouldCreateNewFile s
   \<and> logs (SetLevelsToDisplay m s) = logs s
   \<and> stdout (SetLevelsToDisplay m s) = stdout s
   \<and> color (SetLevelsToDisplay m s) = color s
   \<and> logLevelsToSave (SetLevelsToSave m s) = m
   \<and> logLevelsToDisplay (SetLevelsToSave m s) = logLevelsToDisplay s
   \<and> pastLogsToKeep (SetLevelsToSave m s) = pastLogsToKeep s
   \<and> shouldCreateNewFile (SetLevelsToSave m s) = shouldCreateNewFile s
   \<and> logs (SetLevelsToSave m s) = logs s
   \<and> stdout (SetLevelsToSave m s) = stdout s
   \<and> color (SetLevelsToSave m s) = color s
   \<and> pastLogsToKeep (SetNumberOfFilesToSave n s) = n
   \<and> logLevelsToDisplay (SetNumberOfFilesToSave n s) = logLevelsToDisplay s
   \<and> logLevelsToSave (SetNumberOfFilesToSave n s) = logLevelsToSave s
   \<and> shouldCreateNewFile (SetNumberOfFilesToSave n s) = shouldCreateNewFile s
   \<and> logs (SetNumberOfFilesToSave n s) = logs s
   \<and> stdout (SetNumberOfFilesToSave n s) = stdout s
   \<and> color (SetNumberOfFilesToSave n s) = color s"
  by (simp add: SetLevelsToDisplay_def SetLevelsToSave_def SetNumberOfFilesToSave_def)

text \<open>
  C5 as stated fails in three ways. At a level whose bit is set in the persist mask, on a
  session file that does not open, nothing is written to the file (\<open>active_locked\<close>). At
  a level whose bit is clear in the display mask the console still gets the notice of the
  archive transition of a first file write (\<open>errors_shown\<close>). And a first file write
  whose archive transition throws writes nothing (\<open>slash_fresh\<close>).
\<close>

theorem level_filter_missed:
  "logLevelsToSave active_locked AND level_bit INFO \<noteq> 0
   \<and> session_text active_locked = old_text
   \<and> map_sum id session_text (log_at INFO clock_later ''i'' active_locked) = Inr old_text
   \<and> logLevelsToDisplay errors_shown AND level_bit INFO = 0
   \<and> stdout errors_shown = []
   \<and> map_sum id stdout (log_at INFO clock_later ''i'' errors_shown) =
       Inr (''Maximum number of past logs reached, removing: '' @
            ''./logs/past_logs/log_2023.1.1.8-0-0.txt'' @ [newline])
   \<and> logLevelsToSave slash_fresh AND level_bit INFO \<noteq> 0
   \<and> map_sum id session_text (log_at INFO clock_later ''i'' slash_fresh) = Inl FilesystemError"
  by code_simp

text \<open>
  C5, amended. The test of a mask against a level is the test of one of six distinct
  bits. A call at a level returns when the bit of the persist mask is clear, or the
  first file write is over, or the archive transition returns. A call that returns has
  put on the console the record exactly when the bit of the display mask is set, and
  after it the notices of the archive transition exactly when the bit of the persist
  mask is set and this is the first file write over a session file. When the bit of the
  persist mask is clear the file system and the rotation flag are as they were; when it
  is set and the session file opens, the record is at the end of the file (after the
  banner on the first file write); when it is set and the file does not open, the file
  is as it was and the persist mask is \<^verbatim>\<open>LOGLEVEL_NONE\<close>. The two decisions are
  independent: the file system after the call does not depend on the display mask, and
  the notices depend on neither mask.
\<close>

theorem level_filter:
  "(logLevelsToDisplay s AND level_bit l \<noteq> 0) = bit (logLevelsToDisplay s) (level_index l)
   \<and> (logLevelsToSave s AND level_bit l \<noteq> 0) = bit (logLevelsToSave s) (level_index l)
   \<and> level_index l < 6
   \<and> (level_bit l = level_bit l' \<longrightarrow> l = l')
   \<and> (\<not> bit (logLevelsToSave s) (level_index l) \<or> \<not> shouldCreateNewFile s \<or> can_archive s \<longrightarrow>
        (\<exists>s'. log_at l clk msg s = Inr s'))
   \<and> (\<forall>s'. log_at l clk msg s = Inr s' \<longrightarrow>
          stdout s' = stdout s @
            (if bit (logLevelsToDisplay s) (level_index l)
             then record_line (header_of clk (level_name l)) msg else []) @
            (if bit (logLevelsToSave s) (level_index l) \<and> shouldCreateNewFile s
                  \<and> session s \<noteq> None
             then room_text s else [])
        \<and> (\<not> bit (logLevelsToSave s) (level_index l) \<longrightarrow>
             logs s' = logs s \<and> shouldCreateNewFile s' = shouldCreateNewFile s)
        \<and> (bit (logLevelsToSave s) (level_index l) \<and> session_opens s \<longrightarrow>
             session_text s' =
               (if shouldCreateNewFile s then creationDate (r_created clk) else session_text s) @
               record_line (header_of clk (level_name l)) msg)
        \<and> (bit (logLevelsToSave s) (level_index l) \<and> \<not> session_opens s \<longrightarrow>
             session s' = session s \<and> logLevelsToSave s' = LOGLEVEL_NONE))
   \<and> map_sum id logs (log_at l clk msg (s\<lparr>logLevelsToDisplay := dm\<rparr>)) =
       map_sum id logs (log_at l clk msg s)
   \<and> room_text (s\<lparr>logLevelsToDisplay := dm, logLevelsToSave := pm\<rparr>) = room_text s"
proof -
  let ?D = "bit (logLevelsToDisplay s) (level_index l)"
  let ?P = "bit (logLevelsToSave s) (level_index l)"
  let ?line = "record_line (header_of clk (level_name l)) msg"
  let ?c = "console_done l clk msg s"
  have d: "(logLevelsToDisplay s AND level_bit l \<noteq> 0) = ?D"
    and p: "(logLevelsToSave s AND level_bit l \<noteq> 0) = ?P"
    by (rule level_bit_test)+
  have call: "log_at l clk msg s = (if ?P then LogToFile clk (header_of clk (level_name l)) msg ?c
      else Inr ?c)"
    using p by (simp add: log_at_eq)
  have out: "stdout ?c = stdout s @ (if ?D then ?line else [])"
    using d by simp
  have ret: "\<not> ?P \<or> \<not> shouldCreateNewFile s \<or> can_archive s \<longrightarrow>
      (\<exists>s'. log_at l clk msg s = Inr s')"
    using LogToFile_returns [of ?c clk "header_of clk (level_name l)" msg]
    by (auto simp: call)
  have res: "stdout s' = stdout s @ (if ?D then ?line else []) @
            (if ?P \<and> shouldCreateNewFile s \<and> session s \<noteq> None then room_text s else [])
        \<and> (\<not> ?P \<longrightarrow> logs s' = logs s \<and> shouldCreateNewFile s' = shouldCreateNewFile s)
        \<and> (?P \<and> session_opens s \<longrightarrow>
             session_text s' =
               (if shouldCreateNewFile s then creationDate (r_created clk) else session_text s) @
               ?line)
        \<and> (?P \<and> \<not> session_opens s \<longrightarrow>
             session s' = session s \<and> logLevelsToSave s' = LOGLEVEL_NONE)"
    if r: "log_at l clk msg s = Inr s'" for s'
  proof (cases ?P)
    case False
    with r call have "s' = ?c" by simp
    with False out show ?thesis by simp
  next
    case True
    with r call have lf: "LogToFile clk (header_of clk (level_name l)) msg ?c = Inr s'" by simp
    from LogToFile_stdout [OF lf] out
    have "stdout s' = stdout s @ (if ?D then ?line else []) @
        (if shouldCreateNewFile s \<and> session s \<noteq> None then room_text s else [])"
      by (cases "session s") simp_all
    moreover have "session_opens s \<longrightarrow> session_text s' =
        (if shouldCreateNewFile s then creationDate (r_created clk) else session_text s) @ ?line"
      using LogToFile_text [of ?c clk "header_of clk (level_name l)" msg s'] lf by simp
    moreover have "\<not> session_opens s \<longrightarrow>
        session s' = session s \<and> logLevelsToSave s' = LOGLEVEL_NONE"
      using LogToFile_unopened [of ?c clk "header_of clk (level_name l)" msg s'] lf by simp
    ultimately show ?thesis using True by simp
  qed
  have indep: "map_sum id logs (log_at l clk msg (s\<lparr>logLevelsToDisplay := dm\<rparr>)) =
       map_sum id logs (log_at l clk msg s)"
  proof (cases ?P)
    case False
    then show ?thesis using p by (simp add: log_at_eq)
  next
    case True
    have "map_sum id logs (LogToFile clk (header_of clk (level_name l)) msg
            (console_done l clk msg (s\<lparr>logLevelsToDisplay := dm\<rparr>))) =
          map_sum id logs (LogToFile clk (header_of clk (level_name l)) msg ?c)"
      by (rule LogToFile_cong) simp_all
    then show ?thesis using True p by (simp add: log_at_eq)
  qed
  have n: "notices (s\<lparr>logLevelsToDisplay := dm, logLevelsToSave := pm\<rparr>) es c = notices s es c"
    for es c
    by (induction es arbitrary: c) (simp_all add: unix_notice_def archive_def)
  have rt: "room_text (s\<lparr>logLevelsToDisplay := dm, logLevelsToSave := pm\<rparr>) = room_text s"
    by (simp add: room_text_def n archive_def)
  from d p level_index_less [of l] level_bit_inj [of l l'] ret res indep rt
  show ?thesis by blast
qed

theorem level_filter_witness:
  "bit (logLevelsToDisplay mixed_masks) (level_index WARNING)
   \<and> \<not> bit (logLevelsToSave mixed_masks) (level_index WARNING)
   \<and> map_sum id (\<lambda>s. (stdout s, session_text s)) (log_at WARNING clock_later ''w'' mixed_masks) =
       Inr (''[18:45:7] <Warning> - w'' @ [newline], old_text)
   \<and> \<not> bit (logLevelsToDisplay mixed_masks) (level_index INFO)
   \<and> bit (logLevelsToSave mixed_masks) (level_index INFO)
   \<and> session_opens mixed_masks \<and> \<not> shouldCreateNewFile mixed_masks
   \<and> map_sum id (\<lambda>s. (stdout s, session_text s)) (log_at INFO clock_later ''i'' mixed_masks) =
       Inr ([], old_text @ ''[18:45:7] <Info> - i'' @ [newline])"
proof -
  have a: "bit (logLevelsToDisplay mixed_masks) (level_index WARNING)
      \<and> \<not> bit (logLevelsToSave mixed_masks) (level_index WARNING)
      \<and> \<not> bit (logLevelsToDisplay mixed_masks) (level_index INFO)
      \<and> bit (logLevelsToSave mixed_masks) (level_index INFO)"
    using level_bit_test [of "logLevelsToDisplay mixed_masks" WARNING]
      level_bit_test [of "logLevelsToSave mixed_masks" WARNING]
      level_bit_test [of "logLevelsToDisplay mixed_masks" INFO]
      level_bit_test [of "logLevelsToSave mixed_masks" INFO]
    by (simp add: mixed_masks_def SetLevelsToSave_def SetLevelsToDisplay_def
          LOGLEVEL_INFO_def LOGLEVEL_DEBUG_def LOGLEVEL_WARNING_def LOGLEVEL_ERROR_def)
  have b: "session_opens mixed_masks \<and> \<not> shouldCreateNewFile mixed_masks
      \<and> stdout mixed_masks = [] \<and> session_text mixed_masks = old_text" by code_simp
  have w: "record_line (header_of clock_later (level_name WARNING)) ''w'' =
      ''[18:45:7] <Warning> - w'' @ [newline]" by code_simp
  have i: "record_line (header_of clock_later (level_name INFO)) ''i'' =
      ''[18:45:7] <Info> - i'' @ [newline]" by code_simp
  note warn = level_filter [of mixed_masks WARNING WARNING clock_later "''w''" 0 0]
  note info = level_filter [of mixed_masks INFO INFO clock_later "''i''" 0 0]
  from warn a obtain s1 where s1: "log_at WARNING clock_later ''w'' mixed_masks = Inr s1"
    by blast
  from info b obtain s2 where s2: "log_at INFO clock_later ''i'' mixed_masks = Inr s2"
    by blast
  from warn s1 a b have "stdout s1 = record_line (header_of clock_later (level_name WARNING)) ''w''
      \<and> logs s1 = logs mixed_masks"
    by simp
  then have c: "map_sum id (\<lambda>s. (stdout s, session_text s))
        (log_at WARNING clock_later ''w'' mixed_masks) =
       Inr (''[18:45:7] <Warning> - w'' @ [newline], old_text)"
    using s1 w b by (simp add: session_text_def session_def)
  from info s2 a b have "stdout s2 = []
      \<and> session_text s2 = old_text @ record_line (header_of clock_later (level_name INFO)) ''i''"
    by simp
  then have d: "map_sum id (\<lambda>s. (stdout s, session_text s))
        (log_at INFO clock_later ''i'' mixed_masks) =
       Inr ([], old_text @ ''[18:45:7] <Info> - i'' @ [newline])"
    using s2 i by simp
  from a b c d show ?thesis by blast
qed



text \<open>
  C8 as stated fails in four ways, each with display mask \<^verbatim>\<open>LOGLEVEL_NONE\<close> and persist
  mask \<^verbatim>\<open>LOGLEVEL_ALL\<close>. On the first file write over a full archive the console gets the
  notice of the removal, and the session file is left with three lines: banner, empty
  line and record (\<open>quiet five_full\<close>). On a session file that does not open nothing is
  appended (\<open>quiet active_locked\<close>). A message with a newline appends two lines
  (\<open>quiet active_old\<close>). And a first file write whose archive transition throws appends
  nothing (\<open>quiet slash_fresh\<close>).
\<close>

theorem quiet_first_write:
  "logLevelsToDisplay (quiet five_full) = LOGLEVEL_NONE
   \<and> logLevelsToSave (quiet five_full) = LOGLEVEL_ALL
   \<and> stdout (quiet five_full) = []
   \<and> session_text (quiet five_full) = old_text
   \<and> map_sum id stdout (Info clock_later ''up'' (quiet five_full)) =
       Inr (''Maximum number of past logs reached, removing: '' @
            ''./logs/past_logs/log_2023.1.1.8-0-0.txt'' @ [newline])
   \<and> map_sum id session_text (Info clock_later ''up'' (quiet five_full)) =
       Inr (''Created - 2024. 2. 9. 18:45:7'' @ [newline, newline] @
            ''[18:45:7] <Info> - up'' @ [newline])
   \<and> logLevelsToDisplay (quiet active_locked) = LOGLEVEL_NONE
   \<and> logLevelsToSave (quiet active_locked) = LOGLEVEL_ALL
   \<and> session_text (quiet active_locked) = old_text
   \<and> map_sum id session_text (Info clock_later ''up'' (quiet active_locked)) = Inr old_text
   \<and> logLevelsToDisplay (quiet active_old) = LOGLEVEL_NONE
   \<and> logLevelsToSave (quiet active_old) = LOGLEVEL_ALL
   \<and> session_text (quiet active_old) = old_text
   \<and> map_sum id session_text
        (Info clock_later (''up'' @ [newline] @ ''down'') (quiet active_old)) =
       Inr (old_text @ ''[18:45:7] <Info> - up'' @ [newline] @ ''down'' @ [newline])
   \<and> logLevelsToDisplay (quiet slash_fresh) = LOGLEVEL_NONE
   \<and> logLevelsToSave (quiet slash_fresh) = LOGLEVEL_ALL
   \<and> map_sum id session_text (Info clock_later ''up'' (quiet slash_fresh)) =
       Inl FilesystemError"
proof -
  have full: "logLevelsToDisplay (quiet five_full) = LOGLEVEL_NONE
   \<and> logLevelsToSave (quiet five_full) = LOGLEVEL_ALL
   \<and> stdout (quiet five_full) = []
   \<and> session_text (quiet five_full) = old_text
   \<and> map_sum id stdout (Info clock_later ''up'' (quiet five_full)) =
       Inr (''Maximum number of past logs reached, removing: '' @
            ''./logs/past_logs/log_2023.1.1.8-0-0.txt'' @ [newline])
   \<and> map_sum id session_text (Info clock_later ''up'' (quiet five_full)) =
       Inr (''Created - 2024. 2. 9. 18:45:7'' @ [newline, newline] @
            ''[18:45:7] <Info> - up'' @ [newline])"
    by code_simp
  have locked: "logLevelsToDisplay (quiet active_locked) = LOGLEVEL_NONE
   \<and> logLevelsToSave (quiet active_locked) = LOGLEVEL_ALL
   \<and> session_text (quiet active_locked) = old_text
   \<and> map_sum id session_text (Info clock_later ''up'' (quiet active_locked)) = Inr old_text"
    by code_simp
  have lines: "logLevelsToDisplay (quiet active_old) = LOGLEVEL_NONE
   \<and> logLevelsToSave (quiet active_old) = LOGLEVEL_ALL
   \<and> session_text (quiet active_old) = old_text
   \<and> map_sum id session_text
        (Info clock_later (''up'' @ [newline] @ ''down'') (quiet active_old)) =
       Inr (old_text @ ''[18:45:7] <Info> - up'' @ [newline] @ ''down'' @ [newline])"
    by code_simp
  have thrown: "logLevelsToDisplay (quiet slash_fresh) = LOGLEVEL_NONE
   \<and> logLevelsToSave (quiet slash_fresh) = LOGLEVEL_ALL
   \<and> map_sum id session_text (Info clock_later ''up'' (quiet slash_fresh)) =
       Inl FilesystemError"
    by code_simp
  from full locked lines thrown show ?thesis by simp
qed

text \<open>
  C8, amended. With display mask \<^verbatim>\<open>LOGLEVEL_NONE\<close> and persist mask \<^verbatim>\<open>LOGLEVEL_ALL\<close>, a call
  returns once the first file write is over, and on the first file write when the
  archive transition returns. After the first file write, on a session file that opens,
  a call leaves the console and the archive as they were and adds the line of the record
  to the end of the session file. On the first file write a call that returns has put on
  the console the notices of the archive transition and nothing else, and has left in a
  session file that opens the banner, an empty line and the line of the record. On a
  session file that does not open, a call that returns has left the file as it was and
  the persist mask at \<^verbatim>\<open>LOGLEVEL_NONE\<close>. The line of a record is one line when the message
  has no newline.
\<close>

theorem quiet_save:
  assumes "logLevelsToDisplay s = LOGLEVEL_NONE" and "logLevelsToSave s = LOGLEVEL_ALL"
  shows "(\<not> shouldCreateNewFile s \<or> can_archive s \<longrightarrow> (\<exists>s'. log_at l clk msg s = Inr s'))
    \<and> (\<not> shouldCreateNewFile s \<and> session_opens s \<longrightarrow>
         (\<exists>s'. log_at l clk msg s = Inr s' \<and> stdout s' = stdout s
            \<and> session_text s' = session_text s @ record_line (header_of clk (level_name l)) msg
            \<and> archive s' = archive s))
    \<and> (\<forall>s'. log_at l clk msg s = Inr s' \<longrightarrow>
          stdout s' = stdout s @
            (if shouldCreateNewFile s \<and> session s \<noteq> None then room_text s else [])
        \<and> (shouldCreateNewFile s \<and> session_opens s \<longrightarrow>
             session_text s' =
               creationDate (r_created clk) @ record_line (header_of clk (level_name l)) msg)
        \<and> (\<not> session_opens s \<longrightarrow>
             session_text s' = session_text s \<and> logLevelsToSave s' = LOGLEVEL_NONE))
    \<and> (newline \<notin> set msg \<longrightarrow>
         count_list (record_line (header_of clk (level_name l)) msg) newline = 1)"
proof -
  let ?h = "header_of clk (level_name l)"
  let ?c = "console_done l clk msg s"
  have shown: "logLevelsToDisplay s AND level_bit l = 0"
    using assms(1) by (simp add: LOGLEVEL_NONE_def)
  have saved: "logLevelsToSave s AND level_bit l \<noteq> 0"
    using assms(2) all_saved [of l] by simp
  have call: "log_at l clk msg s = LogToFile clk ?h msg ?c"
    using saved by (simp add: log_at_eq)
  have out: "stdout ?c = stdout s" using shown by simp
  have c1: "\<not> shouldCreateNewFile s \<or> can_archive s \<longrightarrow> (\<exists>s'. log_at l clk msg s = Inr s')"
    using LogToFile_returns [of ?c clk ?h msg] by (simp add: call)
  have c2: "\<exists>s'. log_at l clk msg s = Inr s' \<and> stdout s' = stdout s
            \<and> session_text s' = session_text s @ record_line ?h msg
            \<and> archive s' = archive s"
    if act: "\<not> shouldCreateNewFile s" and opens: "session_opens s"
  proof -
    have "\<not> shouldCreateNewFile ?c" using act by simp
    from LogToFile_active_frame [OF this, of clk ?h msg] obtain s' where
      s': "LogToFile clk ?h msg ?c = Inr s'" "archive s' = archive s" by auto
    from LogToFile_stdout [OF s'(1)] act out have "stdout s' = stdout s" by simp
    moreover from LogToFile_text [of ?c clk ?h msg s'] s'(1) opens act
    have "session_text s' = session_text s @ record_line ?h msg" by simp
    ultimately show ?thesis using s' call by simp
  qed
  have c3: "stdout s' = stdout s @
            (if shouldCreateNewFile s \<and> session s \<noteq> None then room_text s else [])
        \<and> (shouldCreateNewFile s \<and> session_opens s \<longrightarrow>
             session_text s' = creationDate (r_created clk) @ record_line ?h msg)
        \<and> (\<not> session_opens s \<longrightarrow>
             session_text s' = session_text s \<and> logLevelsToSave s' = LOGLEVEL_NONE)"
    if "log_at l clk msg s = Inr s'" for s'
  proof -
    from that have lf: "LogToFile clk ?h msg ?c = Inr s'"
      by (simp add: call)
    from LogToFile_stdout [OF lf] out
    have "stdout s' = stdout s @
        (if shouldCreateNewFile s \<and> session s \<noteq> None then room_text s else [])"
      by (cases "session s") simp_all
    moreover from LogToFile_text [of ?c clk ?h msg s'] lf
    have "shouldCreateNewFile s \<and> session_opens s \<longrightarrow>
        session_text s' = creationDate (r_created clk) @ record_line ?h msg" by simp
    moreover from LogToFile_unopened [of ?c clk ?h msg s'] lf
    have "\<not> session_opens s \<longrightarrow>
        session_text s' = session_text s \<and> logLevelsToSave s' = LOGLEVEL_NONE" by simp
    ultimately show ?thesis by simp
  qed
  from c1 c2 c3 record_line_count [of msg clk l] show ?thesis by blast
qed

theorem quiet_save_witness:
  "logLevelsToDisplay (quiet active_old) = LOGLEVEL_NONE
   \<and> logLevelsToSave (quiet active_old) = LOGLEVEL_ALL
   \<and> session_opens (quiet active_old)
   \<and> \<not> shouldCreateNewFile (quiet active_old)
   \<and> stdout (quiet active_old) = []
   \<and> map_sum id (\<lambda>s. (stdout s, session_text s)) (log_at DEBUG clock_later ''x'' (quiet active_old)) =
       Inr ([], old_text @ ''[18:45:7] <Debug> - x'' @ [newline])
   \<and> newline \<notin> set ''x''
   \<and> count_list (''[18:45:7] <Debug> - x'' @ [newline]) newline = 1"
proof -
  have a: "logLevelsToDisplay (quiet active_old) = LOGLEVEL_NONE" by code_simp
  have b: "logLevelsToSave (quiet active_old) = LOGLEVEL_ALL" by code_simp
  have c: "session_opens (quiet active_old) \<and> \<not> shouldCreateNewFile (quiet active_old)
      \<and> stdout (quiet active_old) = [] \<and> session_text (quiet active_old) = old_text"
    by code_simp
  have h: "newline \<notin> set ''x''" by code_simp
  have ln: "record_line (header_of clock_later (level_name DEBUG)) ''x'' =
      ''[18:45:7] <Debug> - x'' @ [newline]" by code_simp
  note quiet = quiet_save [OF a b, of DEBUG clock_later "''x''"]
  from quiet c obtain s' where
    s': "log_at DEBUG clock_later ''x'' (quiet active_old) = Inr s'"
      "stdout s' = stdout (quiet active_old)"
      "session_text s' = session_text (quiet active_old) @
         record_line (header_of clock_later (level_name DEBUG)) ''x''"
    by blast
  then have g: "map_sum id (\<lambda>s. (stdout s, session_text s))
        (log_at DEBUG clock_later ''x'' (quiet active_old)) =
       Inr ([], old_text @ ''[18:45:7] <Debug> - x'' @ [newline])"
    using c ln by simp
  from quiet h ln have i: "count_list (''[18:45:7] <Debug> - x'' @ [newline]) newline = 1"
    by simp
  from a b c g h i show ?thesis by blast
qed

text \<open>
  C6 as stated fails on three first writes. On a session file that does not open
  (\<open>locked_fresh\<close>) the flag is cleared, but the file keeps its old text, gets no
  banner, and the persist mask becomes \<^verbatim>\<open>LOGLEVEL_NONE\<close>. On an archive that holds a file
  of the derived name which is not older than the session file (\<open>newer_copy\<close>) nothing
  is archived: the file in the archive keeps its text. On an archive whose eviction
  candidate is a directory that is not empty (\<open>full_directory\<close>) the write throws.
\<close>

theorem first_write_not_fresh:
  "shouldCreateNewFile locked_fresh
   \<and> session locked_fresh = Some locked_session
   \<and> map_sum id shouldCreateNewFile
        (LogToFile clock_later ''[18:45:7] <Info>'' ''up'' locked_fresh) = Inr False
   \<and> map_sum id session_text
        (LogToFile clock_later ''[18:45:7] <Info>'' ''up'' locked_fresh) = Inr old_text
   \<and> map_sum id logLevelsToSave
        (LogToFile clock_later ''[18:45:7] <Info>'' ''up'' locked_fresh) = Inr LOGLEVEL_NONE
   \<and> shouldCreateNewFile newer_copy
   \<and> session newer_copy = Some old_session
   \<and> map_sum id archive
        (LogToFile clock_later ''[18:45:7] <Info>'' ''up'' newer_copy) =
       Inr [(''log_2024.1.5.10-30-0.txt'', Regular ''kept'' 1 60)]
   \<and> shouldCreateNewFile full_directory
   \<and> map_sum id shouldCreateNewFile
        (LogToFile clock_later ''[18:45:7] <Info>'' ''up'' full_directory) =
       Inl FilesystemError"
  by code_simp

text \<open>
  C6, amended. The rotation flag is true in the initial state. A file write with the flag
  set returns when the archive transition of the session file that is there returns
  (\<open>can_archive\<close>), and a write that returns has cleared the flag. If there was a session
  file, the archive is the listing left once room was made with the copy of the file
  added: the old text is under the derived name whenever that name was free or named a
  regular file older than the session file, and every other path names what it named. If
  the session file opens, the write has left in it the banner and the line and nothing
  else (truncate mode); if it does not open, the file is as it was and the persist mask
  is \<^verbatim>\<open>LOGLEVEL_NONE\<close>. With the flag clear a file write returns, leaves the flag clear and
  the archive as it is, and adds the line to the end of a session file that opens (append
  mode); and no sequence of calls sets the flag again or changes the archive, so there is
  at most one rotation.
\<close>

theorem rotation_once:
  "shouldCreateNewFile (initial win names col out root)
   \<and> (shouldCreateNewFile s \<longrightarrow>
        (can_archive s \<longrightarrow> (\<exists>s'. LogToFile clk h m s = Inr s'))
      \<and> (\<forall>s'. LogToFile clk h m s = Inr s' \<longrightarrow>
            \<not> shouldCreateNewFile s'
          \<and> (\<forall>f. session s = Some f \<longrightarrow>
                (takes_copy f (after_room s) (destination f) \<longrightarrow>
                   archived_text s' (destination f) = Some (content f))
              \<and> (\<forall>p. p \<noteq> destination f \<longrightarrow>
                   find_entry (archive s') p = find_entry (after_room s) p)
              \<and> (\<not> writable f \<longrightarrow>
                   session s' = Some f \<and> logLevelsToSave s' = LOGLEVEL_NONE))
          \<and> (session s = None \<longrightarrow> archive s' = archive s)
          \<and> (session_opens s \<longrightarrow>
                session_text s' = creationDate (r_created clk) @ record_line h m)))
   \<and> (\<not> shouldCreateNewFile s \<longrightarrow>
        (\<exists>s'. LogToFile clk h m s = Inr s' \<and> \<not> shouldCreateNewFile s'
           \<and> archive s' = archive s
           \<and> (session_opens s \<longrightarrow> session_text s' = session_text s @ record_line h m))
      \<and> (\<exists>s'. run cs s = Inr s' \<and> \<not> shouldCreateNewFile s' \<and> archive s' = archive s))"
proof (intro conjI impI allI)
  show "shouldCreateNewFile (initial win names col out root)" by (simp add: initial_def)
next
  assume "can_archive s"
  then show "\<exists>s'. LogToFile clk h m s = Inr s'" using LogToFile_returns [of s clk h m] by simp
next
  fix s' assume "shouldCreateNewFile s" "LogToFile clk h m s = Inr s'"
  from LogToFile_fresh_flag [OF this] show "\<not> shouldCreateNewFile s'" by blast
next
  fix s' f assume "shouldCreateNewFile s" "LogToFile clk h m s = Inr s'" "session s = Some f"
    "takes_copy f (after_room s) (destination f)"
  with LogToFile_fresh_flag [of s clk h m s']
  show "archived_text s' (destination f) = Some (content f)"
    using archived_text_copy [of s' "platy_windows s" "r_now clk" f "after_room s"] by blast
next
  fix s' f p assume "shouldCreateNewFile s" "LogToFile clk h m s = Inr s'" "session s = Some f"
    "p \<noteq> destination f"
  with LogToFile_fresh_flag [of s clk h m s']
  show "find_entry (archive s') p = find_entry (after_room s) p"
    using archived_text_other [of s' "platy_windows s" "r_now clk" f "after_room s" p] by blast
next
  fix s' f assume "shouldCreateNewFile s" "LogToFile clk h m s = Inr s'" "session s = Some f"
    "\<not> writable f"
  with LogToFile_fresh_flag [of s clk h m s'] show "session s' = Some f"
    by simp
next
  fix s' f assume "shouldCreateNewFile s" "LogToFile clk h m s = Inr s'" "session s = Some f"
    "\<not> writable f"
  with LogToFile_fresh_flag [of s clk h m s'] show "logLevelsToSave s' = LOGLEVEL_NONE"
    by (simp add: LOGLEVEL_NONE_def)
next
  fix s' assume "shouldCreateNewFile s" "LogToFile clk h m s = Inr s'" "session s = None"
  with LogToFile_fresh_flag [of s clk h m s'] show "archive s' = archive s" by blast
next
  fix s' assume "shouldCreateNewFile s" "LogToFile clk h m s = Inr s'" "session_opens s"
  with LogToFile_text [of s clk h m s']
  show "session_text s' = creationDate (r_created clk) @ record_line h m" by simp
next
  assume active: "\<not> shouldCreateNewFile s"
  from LogToFile_active_frame [OF active, of clk h m] obtain s' where
    s': "LogToFile clk h m s = Inr s'" and "\<not> shouldCreateNewFile s' \<and> archive s' = archive s"
    by blast
  note this(2)
  moreover have "session_opens s \<longrightarrow> session_text s' = session_text s @ record_line h m"
    using LogToFile_text [of s clk h m s'] s' active by simp
  ultimately show "\<exists>s'. LogToFile clk h m s = Inr s' \<and> \<not> shouldCreateNewFile s'
           \<and> archive s' = archive s
           \<and> (session_opens s \<longrightarrow> session_text s' = session_text s @ record_line h m)"
    using s' by blast
next
  assume "\<not> shouldCreateNewFile s"
  then show "\<exists>s'. run cs s = Inr s' \<and> \<not> shouldCreateNewFile s' \<and> archive s' = archive s"
    by (rule run_active)
qed

theorem rotation_once_witness:
  "shouldCreateNewFile older_copy \<and> can_archive older_copy \<and> session_opens older_copy
   \<and> session older_copy = Some old_session
   \<and> takes_copy old_session (after_room older_copy) (destination old_session)
   \<and> destination old_session = ''./logs/past_logs/log_2024.1.5.10-30-0.txt''
   \<and> archived_text older_copy ''./logs/past_logs/log_2024.1.5.10-30-0.txt'' = Some ''stale''
   \<and> map_sum id shouldCreateNewFile
        (LogToFile clock_later ''[18:45:7] <Info>'' ''up'' older_copy) = Inr False
   \<and> map_sum id (\<lambda>s. archived_text s ''./logs/past_logs/log_2024.1.5.10-30-0.txt'')
        (LogToFile clock_later ''[18:45:7] <Info>'' ''up'' older_copy) = Inr (Some old_text)
   \<and> map_sum id session_text
        (LogToFile clock_later ''[18:45:7] <Info>'' ''up'' older_copy) =
       Inr (''Created - 2024. 2. 9. 18:45:7'' @ [newline, newline] @
            ''[18:45:7] <Info> - up'' @ [newline])
   \<and> \<not> shouldCreateNewFile active_old \<and> session_opens active_old
   \<and> map_sum id (\<lambda>s. (shouldCreateNewFile s, archive s, session_text s))
        (LogToFile clock_later ''[18:45:7] <Info>'' ''up'' active_old) =
       Inr (False, [], old_text @ ''[18:45:7] <Info> - up'' @ [newline])
   \<and> map_sum id (\<lambda>s. (shouldCreateNewFile s, archive s))
        (run [CallLog INFO clock_later ''a'', CallSetLevelsToSave 0, CallLog FATAL clock_later ''b'']
           active_old) =
       Inr (False, [])"
proof -
  have a: "shouldCreateNewFile older_copy \<and> can_archive older_copy \<and> session_opens older_copy
      \<and> session older_copy = Some old_session
      \<and> takes_copy old_session (after_room older_copy) (destination old_session)
      \<and> destination old_session = ''./logs/past_logs/log_2024.1.5.10-30-0.txt''
      \<and> archived_text older_copy ''./logs/past_logs/log_2024.1.5.10-30-0.txt'' = Some ''stale''"
    by code_simp
  have tx: "content old_session = old_text" by (simp add: old_session_def)
  have ln: "creationDate (r_created clock_later) @ record_line ''[18:45:7] <Info>'' ''up'' =
      ''Created - 2024. 2. 9. 18:45:7'' @ [newline, newline] @
      ''[18:45:7] <Info> - up'' @ [newline]"
    by code_simp
  note fresh = rotation_once [of True plain_names 0 "[]" None older_copy clock_later
      "''[18:45:7] <Info>''" "''up''" "[]"]
  from fresh a obtain s' where
    s': "LogToFile clock_later ''[18:45:7] <Info>'' ''up'' older_copy = Inr s'" by blast
  from fresh a s' have
    "\<not> shouldCreateNewFile s'
     \<and> archived_text s' (destination old_session) = Some (content old_session)
     \<and> session_text s' =
         creationDate (r_created clock_later) @ record_line ''[18:45:7] <Info>'' ''up''"
    by blast
  with a tx ln s' have b:
    "map_sum id shouldCreateNewFile
        (LogToFile clock_later ''[18:45:7] <Info>'' ''up'' older_copy) = Inr False
     \<and> map_sum id (\<lambda>s. archived_text s ''./logs/past_logs/log_2024.1.5.10-30-0.txt'')
        (LogToFile clock_later ''[18:45:7] <Info>'' ''up'' older_copy) = Inr (Some old_text)
     \<and> map_sum id session_text
        (LogToFile clock_later ''[18:45:7] <Info>'' ''up'' older_copy) =
       Inr (''Created - 2024. 2. 9. 18:45:7'' @ [newline, newline] @
            ''[18:45:7] <Info> - up'' @ [newline])"
    by simp
  have c: "\<not> shouldCreateNewFile active_old \<and> session_opens active_old" by code_simp
  note later = rotation_once [of True plain_names 0 "[]" None active_old clock_later
      "''[18:45:7] <Info>''" "''up''"
      "[CallLog INFO clock_later ''a'', CallSetLevelsToSave 0, CallLog FATAL clock_later ''b'']"]
  have d: "map_sum id (\<lambda>s. (shouldCreateNewFile s, archive s, session_text s))
        (LogToFile clock_later ''[18:45:7] <Info>'' ''up'' active_old) =
       Inr (False, [], old_text @ ''[18:45:7] <Info> - up'' @ [newline])"
    by code_simp
  have e: "map_sum id (\<lambda>s. (shouldCreateNewFile s, archive s))
        (run [CallLog INFO clock_later ''a'', CallSetLevelsToSave 0, CallLog FATAL clock_later ''b'']
           active_old) =
       Inr (False, [])"
    by code_simp
  from later a b c d e show ?thesis by blast
qed

text \<open>
  C3. With the flag clear and a session file that does not open for writing, a call at a
  saved level returns without an exception, sets the persist mask to
  \<^verbatim>\<open>LOGLEVEL_NONE\<close>, leaves the session file and the archive as they were (the write is
  given up, not tried again) and prints the record exactly when the level is displayed.
  From then on, as in any state whose persist mask is \<^verbatim>\<open>LOGLEVEL_NONE\<close>, a call leaves
  the file system alone, whatever has become of the file, and still prints the record
  when its level is displayed.
\<close>

theorem unwritable_session:
  assumes "\<not> shouldCreateNewFile s" and "session s = Some f" and "\<not> writable f"
    and "logLevelsToSave s AND level_bit l \<noteq> 0"
  shows "\<exists>s'. log_at l clk msg s = Inr s'
      \<and> logLevelsToSave s' = LOGLEVEL_NONE
      \<and> session s' = Some f
      \<and> archive s' = archive s
      \<and> logLevelsToDisplay s' = logLevelsToDisplay s
      \<and> stdout s' = stdout s @
          (if logLevelsToDisplay s AND level_bit l \<noteq> 0
           then record_line (header_of clk (level_name l)) msg else [])
      \<and> (\<forall>t l2 clk2 msg2. logLevelsToSave t = LOGLEVEL_NONE \<longrightarrow>
            (\<exists>t'. log_at l2 clk2 msg2 t = Inr t'
               \<and> logs t' = logs t
               \<and> logLevelsToSave t' = LOGLEVEL_NONE
               \<and> stdout t' = stdout t @
                   (if logLevelsToDisplay t AND level_bit l2 \<noteq> 0
                    then record_line (header_of clk2 (level_name l2)) msg2 else [])))"
proof -
  have act: "\<not> shouldCreateNewFile (console_done l clk msg s)" using assms by simp
  have later: "\<exists>t'. log_at l2 clk2 msg2 t = Inr t'
               \<and> logs t' = logs t
               \<and> logLevelsToSave t' = LOGLEVEL_NONE
               \<and> stdout t' = stdout t @
                   (if logLevelsToDisplay t AND level_bit l2 \<noteq> 0
                    then record_line (header_of clk2 (level_name l2)) msg2 else [])"
    if "logLevelsToSave t = LOGLEVEL_NONE" for t l2 clk2 msg2
    using that by (simp add: log_at_eq LOGLEVEL_NONE_def)
  from LogToFile_active [OF act, of clk "header_of clk (level_name l)" msg] assms
  have "log_at l clk msg s =
      Inr ((console_done l clk msg s)\<lparr>logLevelsToSave := 0,
             logs := Some \<lparr>latest_log = Some f, past_logs = Some (archive s)\<rparr>\<rparr>)"
    by (simp add: log_at_eq)
  then show ?thesis using later
    by (simp add: LOGLEVEL_NONE_def session_def archive_def)
qed

theorem unwritable_session_witness:
  "\<not> shouldCreateNewFile active_locked
   \<and> session active_locked = Some locked_session
   \<and> \<not> writable locked_session
   \<and> logLevelsToSave active_locked AND level_bit WARNING \<noteq> 0
   \<and> map_sum id (\<lambda>s. (logLevelsToSave s, session s, stdout s))
        (log_at WARNING clock_later ''disk'' active_locked) =
       Inr (0, Some locked_session, ''[18:45:7] <Warning> - disk'' @ [newline])
   \<and> map_sum id (\<lambda>s. (logLevelsToSave s, session s, stdout s))
        (run [CallLog WARNING clock_later ''disk'', CallLog INFO clock_later ''next'']
           active_locked) =
       Inr (0, Some locked_session,
            ''[18:45:7] <Warning> - disk'' @ [newline] @ ''[18:45:7] <Info> - next'' @ [newline])"
proof -
  have a: "\<not> shouldCreateNewFile active_locked" by code_simp
  have b: "session active_locked = Some locked_session" by code_simp
  have c: "\<not> writable locked_session" by code_simp
  have d: "logLevelsToSave active_locked AND level_bit WARNING \<noteq> 0" by code_simp
  have e: "map_sum id (\<lambda>s. (logLevelsToSave s, session s, stdout s))
        (log_at WARNING clock_later ''disk'' active_locked) =
       Inr (0, Some locked_session, ''[18:45:7] <Warning> - disk'' @ [newline])"
    by code_simp
  have f: "map_sum id (\<lambda>s. (logLevelsToSave s, session s, stdout s))
        (run [CallLog WARNING clock_later ''disk'', CallLog INFO clock_later ''next'']
           active_locked) =
       Inr (0, Some locked_session,
            ''[18:45:7] <Warning> - disk'' @ [newline] @ ''[18:45:7] <Info> - next'' @ [newline])"
    by code_simp
  from unwritable_session [OF a b c d, of clock_later "''disk''"] a b c d e f
  show ?thesis by blast
qed

text \<open>
  C4. The entry \<^verbatim>\<open>GetOldestLog\<close> returns is meant to be the oldest one. Evaluated on the
  Windows build with the listing \<^verbatim>\<open>a.txt\<close>, \<^verbatim>\<open>b.txt\<close>, \<^verbatim>\<open>c.txt\<close> of creation times 5, 0
  and 7, it returns \<^verbatim>\<open>c.txt\<close>, the entry with the largest creation time: the test
  \<^verbatim>\<open>GetFileCreationTime(oldestFile) == 0\<close>, there for the empty path the loop starts
  with, also gives up a candidate whose own creation time is 0. (When no creation time
  is 0 the loop returns an entry of smallest creation time: \<open>GetOldestLog_smallest\<close>.)
\<close>

theorem oldest_log_zero_time:
  "platy_windows mixed_times
   \<and> archive mixed_times =
       [(''a.txt'', Regular ''first'' 5 5), (''b.txt'', Regular ''second'' 0 6),
        (''c.txt'', Regular ''third'' 7 7)]
   \<and> map_sum id fst (GetOldestLog mixed_times) = Inr ''./logs/past_logs/c.txt''"
  by code_simp

text \<open>
  C1 as stated fails on three session files whose first line is the banner
  \<^verbatim>\<open>Created - 2024. 1. 5. 10:30:0\<close>. One that does not open for reading and writing
  (\<open>locked_fresh\<close>) is copied to \<^verbatim>\<open>log_.txt\<close>, since \<^verbatim>\<open>SaveLatestLog\<close> reads the line only
  from a stream that opened. One whose derived name is that of a file in the archive
  which is not older (\<open>newer_copy\<close>) is not copied at all: after the first write the
  archive holds the text it held. With an eviction candidate that is a directory with
  entries (\<open>full_directory\<close>) the transition throws and nothing is archived.
\<close>

theorem archive_name_missed:
  "session locked_fresh = Some locked_session
   \<and> getline (logs locked_fresh) = ''Created - 2024. 1. 5. 10:30:0''
   \<and> newFileLocation 200 (logs locked_fresh) = ''./logs/past_logs/log_.txt''
   \<and> map_sum id archive_names
        (LogToFile clock_later ''[18:45:7] <Info>'' ''up'' locked_fresh) = Inr [''log_.txt'']
   \<and> session newer_copy = Some old_session
   \<and> getline (logs newer_copy) = ''Created - 2024. 1. 5. 10:30:0''
   \<and> content old_session \<noteq> ''kept''
   \<and> map_sum id archive
        (LogToFile clock_later ''[18:45:7] <Info>'' ''up'' newer_copy) =
       Inr [(''log_2024.1.5.10-30-0.txt'', Regular ''kept'' 1 60)]
   \<and> session full_directory = Some old_session
   \<and> map_sum id archive
        (LogToFile clock_later ''[18:45:7] <Info>'' ''up'' full_directory) =
       Inl FilesystemError"
  by code_simp

text \<open>
  C1, amended. For a session file of a previous run that opens for reading and writing
  and whose first line is the banner \<^verbatim>\<open>Created - 2024. 1. 5. 10:30:0\<close>, the path
  \<^verbatim>\<open>SaveLatestLog\<close> copies to is \<^verbatim>\<open>./logs/past_logs/log_2024.1.5.10-30-0.txt\<close>: the
  directory, \<^verbatim>\<open>log_\<close>, the line without its first 10 characters, without white space and
  with a hyphen for every colon, and \<^verbatim>\<open>.txt\<close>. The first file write returns when room
  can be made and that name is taken in the archive or is one the file system accepts.
  When \<^verbatim>\<open>SaveLatestLog\<close> returns, the session file is as it was, and the old text is
  under that name whenever the name was free, or named a regular file older than the
  session file, once room was made. When the first file write returns, the archive is
  the one \<^verbatim>\<open>SaveLatestLog\<close> left, and the session file holds the new banner and line
  only.
\<close>

theorem archive_name_banner:
  assumes "shouldCreateNewFile s" and "session s = Some f" and "writable f"
    and "takeWhile (\<lambda>c. c \<noteq> newline) (content f) = ''Created - 2024. 1. 5. 10:30:0''"
  shows "newFileLocation (r_now clk) (logs (prepared s)) =
           ''./logs/past_logs/log_2024.1.5.10-30-0.txt''
    \<and> newFileLocation (r_now clk) (logs (prepared s)) =
           pastLogsFilepath @ ''log_'' @
           map (\<lambda>c. if c = CHR '':'' then CHR ''-'' else c)
             (filter (\<lambda>c. \<not> isspace c)
               (drop 10 (takeWhile (\<lambda>c. c \<noteq> newline) (content f)))) @
           ''.txt''
    \<and> (can_make_room s \<and>
         (find_entry (after_room s) ''./logs/past_logs/log_2024.1.5.10-30-0.txt'' \<noteq> None \<or>
          usable_name s ''log_2024.1.5.10-30-0.txt'') \<longrightarrow>
           (\<exists>s'. LogToFile clk h m s = Inr s'))
    \<and> (\<forall>s2. SaveLatestLog (r_now clk) (prepared s) = Inr s2 \<longrightarrow>
          session s2 = Some f
        \<and> (takes_copy f (after_room s) ''./logs/past_logs/log_2024.1.5.10-30-0.txt'' \<longrightarrow>
             archived_text s2 ''./logs/past_logs/log_2024.1.5.10-30-0.txt'' =
               Some (content f))
        \<and> (\<forall>s'. LogToFile clk h m s = Inr s' \<longrightarrow> archive s' = archive s2))
    \<and> (\<forall>s'. LogToFile clk h m s = Inr s' \<longrightarrow>
          (\<exists>s2. SaveLatestLog (r_now clk) (prepared s) = Inr s2)
        \<and> (takes_copy f (after_room s) ''./logs/past_logs/log_2024.1.5.10-30-0.txt'' \<longrightarrow>
             archived_text s' ''./logs/past_logs/log_2024.1.5.10-30-0.txt'' =
               Some (content f))
        \<and> session_text s' = creationDate (r_created clk) @ record_line h m)"
proof -
  let ?loc = "''./logs/past_logs/log_2024.1.5.10-30-0.txt''"
  note dest = destination_banner [OF assms(3,4)]
  have new: "newFileLocation (r_now clk) (logs (prepared s)) = archive_location f"
    using assms(2) by (simp add: newFileLocation_eq)
  have opens: "session_opens s" using assms by (simp add: session_opens_def)
  have allowed: "copy_allowed s f =
      (find_entry (after_room s) ?loc \<noteq> None \<or> usable_name s ''log_2024.1.5.10-30-0.txt'')"
    by (simp add: copy_allowed_def dest directory_part_def)
  have c1: "newFileLocation (r_now clk) (logs (prepared s)) = ?loc"
    unfolding new by (rule dest(3))
  have c2: "newFileLocation (r_now clk) (logs (prepared s)) =
           pastLogsFilepath @ ''log_'' @
           map (\<lambda>c. if c = CHR '':'' then CHR ''-'' else c)
             (filter (\<lambda>c. \<not> isspace c)
               (drop 10 (takeWhile (\<lambda>c. c \<noteq> newline) (content f)))) @
           ''.txt''"
    unfolding new using assms(3)
    by (simp add: archive_location_def first_line_def SaveLatestLog_name_def)
  have c3: "can_make_room s \<and>
         (find_entry (after_room s) ?loc \<noteq> None \<or> usable_name s ''log_2024.1.5.10-30-0.txt'') \<longrightarrow>
           (\<exists>s'. LogToFile clk h m s = Inr s')"
    using LogToFile_returns [of s clk h m] assms(2) allowed
    by (simp add: can_archive_def)
  have saved: "session s2 = Some f
      \<and> archive s2 = copy_into (platy_windows s) (r_now clk) f (destination f) (after_room s)"
    if "SaveLatestLog (r_now clk) (prepared s) = Inr s2" for s2
    using SaveLatestLog_prepared [OF assms(2), of "r_now clk"] that
    by (auto simp: session_def archive_def split: if_splits)
  have written: "archive s' = copy_into (platy_windows s) (r_now clk) f (destination f) (after_room s)
      \<and> can_archive s"
    if "LogToFile clk h m s = Inr s'" for s'
    using LogToFile_fresh_flag [OF assms(1) that] assms(2) by blast
  have c4: "session s2 = Some f
        \<and> (takes_copy f (after_room s) ?loc \<longrightarrow> archived_text s2 ?loc = Some (content f))
        \<and> (\<forall>s'. LogToFile clk h m s = Inr s' \<longrightarrow> archive s' = archive s2)"
    if ret: "SaveLatestLog (r_now clk) (prepared s) = Inr s2" for s2
    using saved [OF ret] written
      archived_text_copy [of s2 "platy_windows s" "r_now clk" f "after_room s"]
    by (simp add: dest)
  have c5: "(\<exists>s2. SaveLatestLog (r_now clk) (prepared s) = Inr s2)
        \<and> (takes_copy f (after_room s) ?loc \<longrightarrow> archived_text s' ?loc = Some (content f))
        \<and> session_text s' = creationDate (r_created clk) @ record_line h m"
    if ret: "LogToFile clk h m s = Inr s'" for s'
  proof -
    have "\<exists>s2. SaveLatestLog (r_now clk) (prepared s) = Inr s2"
      using SaveLatestLog_prepared [OF assms(2), of "r_now clk"] written [OF ret] by simp
    moreover have "session_text s' = creationDate (r_created clk) @ record_line h m"
      using LogToFile_text [OF opens ret] assms(1) by simp
    moreover have "takes_copy f (after_room s) ?loc \<longrightarrow> archived_text s' ?loc = Some (content f)"
      using written [OF ret]
        archived_text_copy [of s' "platy_windows s" "r_now clk" f "after_room s"]
      by (simp add: dest)
    ultimately show ?thesis by blast
  qed
  from c1 c2 c3 c4 c5 show ?thesis by blast
qed

theorem archive_name_banner_witness:
  "shouldCreateNewFile five_full \<and> session five_full = Some old_session \<and> writable old_session
   \<and> takeWhile (\<lambda>c. c \<noteq> newline) (content old_session) = ''Created - 2024. 1. 5. 10:30:0''
   \<and> can_make_room five_full
   \<and> usable_name five_full ''log_2024.1.5.10-30-0.txt''
   \<and> takes_copy old_session (after_room five_full) ''./logs/past_logs/log_2024.1.5.10-30-0.txt''
   \<and> archived_text five_full ''./logs/past_logs/log_2024.1.5.10-30-0.txt'' = None
   \<and> map_sum id (\<lambda>s. archived_text s ''./logs/past_logs/log_2024.1.5.10-30-0.txt'')
        (LogToFile clock_later ''[18:45:7] <Info>'' ''up'' five_full) = Inr (Some old_text)
   \<and> map_sum id session_text
        (LogToFile clock_later ''[18:45:7] <Info>'' ''up'' five_full) =
       Inr (''Created - 2024. 2. 9. 18:45:7'' @ [newline, newline] @
            ''[18:45:7] <Info> - up'' @ [newline])
   \<and> map_sum id (\<lambda>s. (session s, archived_text s ''./logs/past_logs/log_2024.1.5.10-30-0.txt''))
        (SaveLatestLog 200 (prepared five_full)) = Inr (Some old_session, Some old_text)"
proof -
  have a: "shouldCreateNewFile five_full" by code_simp
  have b: "session five_full = Some old_session" by code_simp
  have c: "writable old_session" by code_simp
  have d: "takeWhile (\<lambda>c. c \<noteq> newline) (content old_session) = ''Created - 2024. 1. 5. 10:30:0''"
    by code_simp
  have e: "can_make_room five_full \<and> usable_name five_full ''log_2024.1.5.10-30-0.txt''
      \<and> takes_copy old_session (after_room five_full) ''./logs/past_logs/log_2024.1.5.10-30-0.txt''
      \<and> archived_text five_full ''./logs/past_logs/log_2024.1.5.10-30-0.txt'' = None"
    by code_simp
  have tx: "content old_session = old_text" by (simp add: old_session_def)
  have now: "r_now clock_later = 200" by (simp add: clock_later_def)
  have ln: "creationDate (r_created clock_later) @ record_line ''[18:45:7] <Info>'' ''up'' =
      ''Created - 2024. 2. 9. 18:45:7'' @ [newline, newline] @
      ''[18:45:7] <Info> - up'' @ [newline]"
    by code_simp
  note banner = archive_name_banner [OF a b c d, of clock_later "''[18:45:7] <Info>''" "''up''"]
  from banner e obtain s' where
    s': "LogToFile clock_later ''[18:45:7] <Info>'' ''up'' five_full = Inr s'" by blast
  from banner s' obtain s2 where
    s2: "SaveLatestLog (r_now clock_later) (prepared five_full) = Inr s2" by blast
  from banner e s' have
    "archived_text s' ''./logs/past_logs/log_2024.1.5.10-30-0.txt'' = Some (content old_session)
     \<and> session_text s' =
         creationDate (r_created clock_later) @ record_line ''[18:45:7] <Info>'' ''up''"
    by blast
  moreover from banner e s2 have
    "session s2 = Some old_session
     \<and> archived_text s2 ''./logs/past_logs/log_2024.1.5.10-30-0.txt'' = Some (content old_session)"
    by blast
  ultimately have f:
    "map_sum id (\<lambda>s. archived_text s ''./logs/past_logs/log_2024.1.5.10-30-0.txt'')
        (LogToFile clock_later ''[18:45:7] <Info>'' ''up'' five_full) = Inr (Some old_text)
     \<and> map_sum id session_text
        (LogToFile clock_later ''[18:45:7] <Info>'' ''up'' five_full) =
       Inr (''Created - 2024. 2. 9. 18:45:7'' @ [newline, newline] @
            ''[18:45:7] <Info> - up'' @ [newline])
     \<and> map_sum id (\<lambda>s. (session s, archived_text s ''./logs/past_logs/log_2024.1.5.10-30-0.txt''))
        (SaveLatestLog 200 (prepared five_full)) = Inr (Some old_session, Some old_text)"
    using s' s2 tx ln now by simp
  from a b c d e f show ?thesis by blast
qed







end
